theory Spec2Isabelle
  imports
    Complex_Main
    "HOL-Library.Char_ord"
    "HOL-Library.List_Lexorder"
    "HOL-Library.Multiset"
begin

section \<open>Domaininator: a shallow embedding of \<^verbatim>\<open>src/domaininator.py\<close>\<close>

text \<open>
  The program reads domain names from a file, asks the system resolver about each of them
  in a thread pool and writes the names that resolve to an output file. Every method of
  \<^verbatim>\<open>DomainChecker\<close> and \<^verbatim>\<open>main\<close> is a HOL function of the same name; \<^verbatim>\<open>main\<close>
  starts from the parsed arguments. What the
  program does to the outside (resolver calls, sleeps, logger calls, prints, the progress
  bar, the file system, the socket module's default timeout) is a field of the record
  \<open>world\<close>, passed in and returned; what the outside answers (the resolver's outcome
  of each call, the order in which futures complete, file-system faults) is a field of the
  record \<open>env\<close>, over which the theorems quantify.
\<close>

subsection \<open>Python strings\<close>

text \<open>
  A Python \<^verbatim>\<open>str\<close> is a list of code points; a \<^typ>\<open>char\<close> stands for a code point
  below 256, so \<^term>\<open>length\<close> counts what \<^verbatim>\<open>len\<close> counts. \<^verbatim>\<open>str.isspace\<close> and
  \<^verbatim>\<open>str.lower\<close> are written out for that range.
\<close>

definition isspace :: "char \<Rightarrow> bool" where
  "isspace c = (of_char c \<in> set [9, 10, 11, 12, 13, 28, 29, 30, 31, 32, 133, 160 :: nat])"

definition lower_char :: "char \<Rightarrow> char" where
  "lower_char c =
     (let n = of_char c :: nat
      in if (65 \<le> n \<and> n \<le> 90) \<or> (192 \<le> n \<and> n \<le> 222 \<and> n \<noteq> 215)
         then char_of (n + 32) else c)"

definition lower :: "string \<Rightarrow> string" where
  "lower s = map lower_char s"

text \<open>\<^verbatim>\<open>s.strip()\<close>: leading and trailing whitespace removed.\<close>

definition strip :: "string \<Rightarrow> string" where
  "strip s = rev (dropWhile isspace (rev (dropWhile isspace s)))"

definition startswith :: "string \<Rightarrow> string \<Rightarrow> bool" where
  "startswith s p = (take (length p) s = p)"

text \<open>\<^verbatim>\<open>s.split(sep)[0]\<close> for a separator of one character: \<open>s\<close> up to the first \<open>sep\<close>.\<close>

definition split_first :: "char \<Rightarrow> string \<Rightarrow> string" where
  "split_first sep s = takeWhile (\<lambda>c. c \<noteq> sep) s"

text \<open>\<^verbatim>\<open>list(dict.fromkeys(xs))\<close>: the first occurrence of every element, in order.\<close>

definition dict_fromkeys :: "'a list \<Rightarrow> 'a list" where
  "dict_fromkeys xs = fold (\<lambda>x keys. if x \<in> set keys then keys else keys @ [x]) xs []"

subsection \<open>Exceptions\<close>

text \<open>
  The classes the program's \<^verbatim>\<open>except\<close> clauses tell apart, under \<^verbatim>\<open>Exception\<close>.
  \<open>mro\<close> lists a class with its base classes; an \<^verbatim>\<open>except C\<close> clause takes an
  exception \<open>e\<close> when \<open>isinstance e C\<close>. An exception of any other class is modelled by
  its nearest base class here, with its own message.
\<close>

datatype exn_class =
    Exception
  | OSError
  | Gaierror
  | Timeout
  | FileNotFoundError
  | PermissionError
  | ValueError
  | UnicodeDecodeError
  | TypeError
  | OverflowError

datatype exn = Exn (cls: exn_class) (msg: string)

fun mro :: "exn_class \<Rightarrow> exn_class list" where
  "mro Exception = [Exception]"
| "mro OSError = [OSError, Exception]"
| "mro Gaierror = [Gaierror, OSError, Exception]"
| "mro Timeout = [Timeout, OSError, Exception]"
| "mro FileNotFoundError = [FileNotFoundError, OSError, Exception]"
| "mro PermissionError = [PermissionError, OSError, Exception]"
| "mro ValueError = [ValueError, Exception]"
| "mro UnicodeDecodeError = [UnicodeDecodeError, ValueError, Exception]"
| "mro TypeError = [TypeError, Exception]"
| "mro OverflowError = [OverflowError, Exception]"

definition isinstance :: "exn \<Rightarrow> exn_class \<Rightarrow> bool" where
  "isinstance e c = (c \<in> set (mro (cls e)))"

type_synonym 'a result = "exn + 'a"

text \<open>A value interpolated between single quotes, as in \<^verbatim>\<open>f"'{x}'"\<close>.\<close>

definition quoted :: "string \<Rightarrow> string" where
  "quoted s = CHR 0x27 # s @ [CHR 0x27]"

subsection \<open>Python floats\<close>

text \<open>
  A Python \<^verbatim>\<open>float\<close>: a finite value, taken as the real number it denotes, an infinity
  or NaN (\<^verbatim>\<open>--timeout nan\<close> and \<^verbatim>\<open>--timeout inf\<close> are accepted by the argument parser).
  \<open>float_le_zero x\<close> is the comparison \<^verbatim>\<open>x <= 0\<close>, which is false of NaN.
\<close>

datatype pyfloat = Finite (seconds: real) | PosInf | NegInf | NaN

definition float_le_zero :: "pyfloat \<Rightarrow> bool" where
  "float_le_zero x =
     (case x of Finite r \<Rightarrow> r \<le> 0 | PosInf \<Rightarrow> False | NegInf \<Rightarrow> True | NaN \<Rightarrow> False)"

subsection \<open>The world and the environment\<close>

type_synonym path = string

datatype level = DEBUG | INFO | WARNING | ERROR

text \<open>A logger call: the format string it uses, with the values it interpolates.\<close>

datatype log_msg =
    UnexpectedErrorChecking string exn
  | DomainTooLong nat string
  | RemovedDuplicates nat
  | LoadingDomainsFrom path
  | SuccessfullyWrote nat path
  | ErrorProcessingDomains exn

text \<open>A \<^verbatim>\<open>print\<close> call, likewise (the elapsed time of the summary is left out).\<close>

datatype print_msg =
    NoValidDomainsFound
  | LoadedDomains nat
  | ResultsSummary nat nat int path
  | NoExistingDomainsFound nat
  | ErrorPrinted exn
  | InputFileDoesNotExist path
  | TimeoutMustBePositive
  | WorkersMustBeBetween1And200

text \<open>A call that changes the file system, recorded when it is made, whatever its outcome.\<close>

datatype fs_call = Mkdir path | OpenForWriting path | WriteLine path string

record world =
  default_timeout :: "real option"
  lookups :: "string list"
  sleeps :: "real list"
  log :: "(level \<times> log_msg) list"
  printed :: "print_msg list"
  progress :: nat
  fs_calls :: "fs_call list"
  files :: "path \<Rightarrow> string list option"

text \<open>
  \<open>dns n host\<close>: what the \<open>n\<close>-th call of \<^verbatim>\<open>socket.gethostbyname\<close> of the run does when
  asked for \<open>host\<close>: it returns (\<open>None\<close>) or raises. \<open>completes k\<close> picks which of the
  pending futures completes next. \<open>read_fault\<close>: reading a file raises after that many
  lines. \<open>mkdir_fault\<close>, \<open>open_fault\<close>, \<open>write_fault\<close>: the faults of the output side,
  the last one after that many lines written. \<open>parent\<close> is \<^verbatim>\<open>pathlib\<close>'s.
  \<open>timeval_limit\<close>: the largest number of seconds that fits the platform's own timeout
  type, where that is narrower than Python's.
\<close>

record env =
  dns :: "nat \<Rightarrow> string \<Rightarrow> exn option"
  completes :: "nat \<Rightarrow> nat"
  read_fault :: "path \<Rightarrow> (nat \<times> exn) option"
  mkdir_fault :: "path \<Rightarrow> exn option"
  open_fault :: "path \<Rightarrow> exn option"
  write_fault :: "path \<Rightarrow> (nat \<times> exn) option"
  parent :: "path \<Rightarrow> path"
  timeval_limit :: real

definition logger :: "level \<Rightarrow> log_msg \<Rightarrow> world \<Rightarrow> world" where
  "logger l m w = w\<lparr>log := log w @ [(l, m)]\<rparr>"

definition print :: "print_msg \<Rightarrow> world \<Rightarrow> world" where
  "print m w = w\<lparr>printed := printed w @ [m]\<rparr>"

subsection \<open>\<^verbatim>\<open>DomainChecker\<close>\<close>

record checker =
  timeout :: pyfloat
  max_workers :: int
  retry_count :: int

definition DomainChecker :: "pyfloat \<Rightarrow> int \<Rightarrow> int \<Rightarrow> checker" where
  "DomainChecker t mw rc = \<lparr>timeout = t, max_workers = mw, retry_count = rc\<rparr>"

subsection \<open>\<^verbatim>\<open>domain_exists\<close>\<close>

text \<open>
  Lines 70 to 82. \<open>removeprefix\<close> is the body of the \<^verbatim>\<open>for prefix in [...]\<close> loop.
  The loop has no \<^verbatim>\<open>break\<close>: it is a fold over the three prefixes, each tested
  against the string as the earlier ones left it.
\<close>

definition removeprefix :: "string \<Rightarrow> string \<Rightarrow> string" where
  "removeprefix prefix domain =
     (if startswith domain prefix then drop (length prefix) domain else domain)"

definition remove_prefixes :: "string \<Rightarrow> string" where
  "remove_prefixes domain = fold removeprefix [''http://'', ''https://'', ''www.''] domain"

text \<open>
  \<open>Inl d\<close>: the format check of line 73 fails and \<^verbatim>\<open>domain_exists\<close> returns
  \<open>(d, False)\<close> at once; \<open>Inr d\<close>: the name handed to the retry loop.
\<close>

definition normalize_domain :: "string \<Rightarrow> string + string" where
  "normalize_domain raw =
     (let domain = lower (strip raw)
      in if domain = [] \<or> CHR ''.'' \<notin> set domain \<or> length domain > 253
         then Inl domain
         else Inr (split_first CHR ''?'' (split_first CHR ''/'' (remove_prefixes domain))))"

text \<open>
  What \<^verbatim>\<open>socket.setdefaulttimeout(self.timeout)\<close> raises, \<open>None\<close> when it takes the
  value. The socket module turns the float into a 64-bit count of nanoseconds, which
  overflows beyond \<open>pytime_limit\<close> seconds (about \<open>9.22e9\<close>) in either direction and for
  an infinity; it refuses NaN and negative values with \<^verbatim>\<open>ValueError\<close>; and it refuses
  what does not fit the platform's timeout type. The wording of the overflow messages
  varies between versions of Python.
\<close>

definition pytime_limit :: real where
  "pytime_limit = 2 ^ 63 / 10 ^ 9"

definition timeout_error :: "env \<Rightarrow> pyfloat \<Rightarrow> exn option" where
  "timeout_error env t =
     (case t of
        NaN \<Rightarrow> Some (Exn ValueError ''Invalid value NaN (not a number)'')
      | PosInf \<Rightarrow> Some (Exn OverflowError ''timestamp too large to convert to C _PyTime_t'')
      | NegInf \<Rightarrow> Some (Exn OverflowError ''timestamp too large to convert to C _PyTime_t'')
      | Finite r \<Rightarrow>
          if r < - pytime_limit \<or> pytime_limit < r
          then Some (Exn OverflowError ''timestamp too large to convert to C _PyTime_t'')
          else if r < 0 then Some (Exn ValueError ''Timeout value out of range'')
          else if timeval_limit env < r
          then Some (Exn OverflowError
                 (''timeout doesn'' @ [CHR 0x27] @ ''t fit into C timeval''))
          else None)"

text \<open>
  The calls that put \<^verbatim>\<open>old_timeout\<close> back store a value read from
  \<^verbatim>\<open>getdefaulttimeout\<close>, which is accepted.
\<close>

definition setdefaulttimeout :: "env \<Rightarrow> pyfloat \<Rightarrow> world \<Rightarrow> world result" where
  "setdefaulttimeout env t w =
     (case timeout_error env t of
        Some e \<Rightarrow> Inl e
      | None \<Rightarrow> Inr (w\<lparr>default_timeout := Some (seconds t)\<rparr>))"

definition gethostbyname :: "env \<Rightarrow> string \<Rightarrow> world \<Rightarrow> exn option \<times> world" where
  "gethostbyname env host w =
     (dns env (length (lookups w)) host, w\<lparr>lookups := lookups w @ [host]\<rparr>)"

text \<open>The body of the \<^verbatim>\<open>try\<close> (lines 88 to 95): \<open>None\<close> when it reaches the return.\<close>

definition try_lookup :: "checker \<Rightarrow> env \<Rightarrow> string \<Rightarrow> world \<Rightarrow> exn option \<times> world" where
  "try_lookup self env domain w =
     (let old_timeout = default_timeout w
      in case setdefaulttimeout env (timeout self) w of
           Inl e \<Rightarrow> (Some e, w)
         | Inr w1 \<Rightarrow>
             (case gethostbyname env domain w1 of
                (Some e, w2) \<Rightarrow> (Some e, w2)
              | (None, w2) \<Rightarrow> (None, w2\<lparr>default_timeout := old_timeout\<rparr>)))"

text \<open>
  The \<^verbatim>\<open>for attempt in range(self.retry_count + 1)\<close> loop over the attempts left, with
  the \<^verbatim>\<open>except\<close> clauses in the source's order; the first equation is line 116.
\<close>

fun retry_loop ::
  "checker \<Rightarrow> env \<Rightarrow> string \<Rightarrow> int list \<Rightarrow> world \<Rightarrow> (string \<times> bool) result \<times> world" where
  "retry_loop self env domain [] w = (Inr (domain, False), w)"
| "retry_loop self env domain (attempt # rest) w =
     (let old_timeout = default_timeout w
      in case try_lookup self env domain w of
           (None, w1) \<Rightarrow> (Inr (domain, True), w1)
         | (Some e, w1) \<Rightarrow>
             (let w2 = w1\<lparr>default_timeout := old_timeout\<rparr>
              in if isinstance e Gaierror then (Inr (domain, False), w2)
                 else if isinstance e Timeout then
                   (if attempt < retry_count self
                    then retry_loop self env domain rest (w2\<lparr>sleeps := sleeps w2 @ [1 / 2]\<rparr>)
                    else (Inr (domain, False), w2))
                 else if isinstance e Exception then
                   (Inr (domain, False), logger DEBUG (UnexpectedErrorChecking domain e) w2)
                 else (Inl e, w1)))"

definition domain_exists ::
  "checker \<Rightarrow> env \<Rightarrow> string \<Rightarrow> world \<Rightarrow> (string \<times> bool) result \<times> world" where
  "domain_exists self env domain w =
     (case normalize_domain domain of
        Inl d \<Rightarrow> (Inr (d, False), w)
      | Inr d \<Rightarrow> retry_loop self env d [0..retry_count self] w)"

subsection \<open>\<^verbatim>\<open>load_domains_from_file\<close>\<close>

text \<open>The \<^verbatim>\<open>for line_num, line in enumerate(f, 1)\<close> loop.\<close>

fun load_lines :: "nat \<Rightarrow> string list \<Rightarrow> string list \<Rightarrow> world \<Rightarrow> string list \<times> world" where
  "load_lines line_num [] domains w = (domains, w)"
| "load_lines line_num (line # rest) domains w =
     (let domain = strip line
      in if domain = [] \<or> startswith domain ''#''
         then load_lines (Suc line_num) rest domains w
         else if length domain > 253
         then load_lines (Suc line_num) rest domains
                (logger WARNING (DomainTooLong line_num (take 50 domain)) w)
         else load_lines (Suc line_num) rest (domains @ [domain]) w)"

text \<open>
  The three \<^verbatim>\<open>except\<close> clauses of the method. \<^verbatim>\<open>UnicodeDecodeError\<close> takes five
  arguments, so building one from a message alone raises \<^verbatim>\<open>TypeError\<close>.
\<close>

definition load_error :: "path \<Rightarrow> exn \<Rightarrow> exn" where
  "load_error input_file e =
     (if isinstance e FileNotFoundError
      then Exn FileNotFoundError (''Input file '' @ quoted input_file @ '' not found'')
      else if isinstance e PermissionError
      then Exn PermissionError (''Permission denied reading '' @ quoted input_file)
      else if isinstance e UnicodeDecodeError
      then Exn TypeError ''function takes exactly 5 arguments (1 given)''
      else e)"

definition load_domains_from_file ::
  "checker \<Rightarrow> env \<Rightarrow> path \<Rightarrow> world \<Rightarrow> string list result \<times> world" where
  "load_domains_from_file self env input_file w =
     (case files w input_file of
        None \<Rightarrow> (Inl (load_error input_file (Exn FileNotFoundError input_file)), w)
      | Some content \<Rightarrow>
          (case read_fault env input_file of
             Some (n, e) \<Rightarrow>
               (Inl (load_error input_file e), snd (load_lines 1 (take n content) [] w))
           | None \<Rightarrow>
               (let (domains, w1) = load_lines 1 content [] w;
                    unique_domains = dict_fromkeys domains;
                    w2 = (if length domains \<noteq> length unique_domains
                          then logger INFO
                                 (RemovedDuplicates (length domains - length unique_domains)) w1
                          else w1)
                in (Inr unique_domains, w2))))"

subsection \<open>\<^verbatim>\<open>save_domains_to_file\<close>\<close>

definition save_error :: "path \<Rightarrow> exn \<Rightarrow> exn" where
  "save_error output_file e =
     (if isinstance e PermissionError
      then Exn PermissionError (''Permission denied writing to '' @ quoted output_file)
      else if isinstance e OSError
      then Exn OSError (''Failed to write to '' @ quoted output_file @ '': '' @ msg e)
      else e)"

definition write_lines :: "path \<Rightarrow> string list \<Rightarrow> world \<Rightarrow> world" where
  "write_lines output_file ls w =
     w\<lparr>fs_calls := fs_calls w @ map (WriteLine output_file) ls,
       files := (files w)(output_file \<mapsto> ls)\<rparr>"

definition save_domains_to_file ::
  "checker \<Rightarrow> env \<Rightarrow> string list \<Rightarrow> path \<Rightarrow> world \<Rightarrow> unit result \<times> world" where
  "save_domains_to_file self env domains output_file w =
     (let w1 = w\<lparr>fs_calls := fs_calls w @ [Mkdir (parent env output_file)]\<rparr>
      in case mkdir_fault env (parent env output_file) of
           Some e \<Rightarrow> (Inl (save_error output_file e), w1)
         | None \<Rightarrow>
             (let w2 = w1\<lparr>fs_calls := fs_calls w1 @ [OpenForWriting output_file]\<rparr>
              in case open_fault env output_file of
                   Some e \<Rightarrow> (Inl (save_error output_file e), w2)
                 | None \<Rightarrow>
                     (let ls = map (\<lambda>domain. domain @ [CHR 0x0A]) (sort domains)
                      in case write_fault env output_file of
                           Some (n, e) \<Rightarrow>
                             (Inl (save_error output_file e),
                              write_lines output_file (take n ls) w2)
                         | None \<Rightarrow>
                             (Inr (),
                              logger INFO (SuccessfullyWrote (length domains) output_file)
                                (write_lines output_file ls w2)))))"

subsection \<open>\<^verbatim>\<open>check_domains_concurrent\<close>\<close>

text \<open>
  \<^verbatim>\<open>as_completed\<close> hands out every pending future once, in the order the scheduler
  picks; \<open>k\<close> counts the futures handed out so far.
\<close>

function as_completed :: "(nat \<Rightarrow> nat) \<Rightarrow> nat \<Rightarrow> 'a list \<Rightarrow> 'a list" where
  "as_completed sched k [] = []"
| "as_completed sched k (f # fs) =
     (f # fs) ! (sched k mod length (f # fs))
       # as_completed sched (Suc k)
           (take (sched k mod length (f # fs)) (f # fs)
              @ drop (Suc (sched k mod length (f # fs))) (f # fs))"
  by pat_completeness auto
termination
  by (relation "measure (\<lambda>(sched, k, fs). length fs)") auto

text \<open>
  The \<^verbatim>\<open>for future in as_completed(...)\<close> loop. A future stands for the call it was
  submitted with; \<^verbatim>\<open>future.result()\<close> gives the pair the call returned or raises what
  the call raised. The calls are run one after the other, in the order they complete:
  how the socket-timeout writes of calls that run at the same time interleave is not
  modelled, and no verdict depends on it.
\<close>

fun collect_results ::
  "checker \<Rightarrow> env \<Rightarrow> string list \<Rightarrow> string list \<Rightarrow> world \<Rightarrow> string list result \<times> world" where
  "collect_results self env [] existing_domains w = (Inr existing_domains, w)"
| "collect_results self env (future # futures) existing_domains w =
     (case domain_exists self env future w of
        (Inl e, w1) \<Rightarrow> (Inl e, w1)
      | (Inr (domain, exists), w1) \<Rightarrow>
          collect_results self env futures
            (if exists then existing_domains @ [domain] else existing_domains)
            (w1\<lparr>progress := progress w1 + 1\<rparr>))"

text \<open>\<^verbatim>\<open>ThreadPoolExecutor\<close> raises \<^verbatim>\<open>ValueError\<close> unless \<^verbatim>\<open>max_workers\<close> is positive.\<close>

definition check_domains_concurrent ::
  "checker \<Rightarrow> env \<Rightarrow> string list \<Rightarrow> world \<Rightarrow> string list result \<times> world" where
  "check_domains_concurrent self env domains w =
     (if max_workers self \<le> 0
      then (Inl (Exn ValueError ''max_workers must be greater than 0''), w)
      else collect_results self env (as_completed (completes env) 0 domains) [] w)"

subsection \<open>\<^verbatim>\<open>filter_existing_domains\<close> and \<^verbatim>\<open>main\<close>\<close>

datatype completion = Returned | SystemExit int

text \<open>The \<^verbatim>\<open>except Exception\<close> clause of \<^verbatim>\<open>filter_existing_domains\<close>.\<close>

definition processing_failed :: "exn \<Rightarrow> world \<Rightarrow> completion \<times> world" where
  "processing_failed e w =
     (SystemExit 1, print (ErrorPrinted e) (logger ERROR (ErrorProcessingDomains e) w))"

definition filter_existing_domains ::
  "checker \<Rightarrow> env \<Rightarrow> path \<Rightarrow> path \<Rightarrow> world \<Rightarrow> completion \<times> world" where
  "filter_existing_domains self env input_file output_file w =
     (case load_domains_from_file self env input_file
             (logger INFO (LoadingDomainsFrom input_file) w) of
        (Inl e, w1) \<Rightarrow> processing_failed e w1
      | (Inr domains, w1) \<Rightarrow>
          if domains = [] then (Returned, print NoValidDomainsFound w1)
          else
            (case check_domains_concurrent self env domains
                    (print (LoadedDomains (length domains)) w1) of
               (Inl e, w2) \<Rightarrow> processing_failed e w2
             | (Inr existing_domains, w2) \<Rightarrow>
                 if existing_domains \<noteq> [] then
                   (case save_domains_to_file self env existing_domains output_file w2 of
                      (Inl e, w3) \<Rightarrow> processing_failed e w3
                    | (Inr u, w3) \<Rightarrow>
                        (Returned,
                         print (ResultsSummary (length domains) (length existing_domains)
                                  (int (length domains) - int (length existing_domains))
                                  output_file) w3))
                 else (Returned, print (NoExistingDomainsFound (length domains)) w2)))"

record args =
  input_file :: path
  output_file :: path
  timeout_arg :: pyfloat
  workers :: int
  retries :: int
  verbose :: bool

text \<open>
  \<^verbatim>\<open>main\<close> after \<^verbatim>\<open>parse_args\<close>; the result is the exit status of the process. The
  logging threshold that \<^verbatim>\<open>--verbose\<close> sets is not modelled: \<open>log\<close> holds every logger
  call.
\<close>

definition main :: "env \<Rightarrow> args \<Rightarrow> world \<Rightarrow> int \<times> world" where
  "main env a w =
     (if files w (input_file a) = None
      then (1, print (InputFileDoesNotExist (input_file a)) w)
      else if float_le_zero (timeout_arg a) then (1, print TimeoutMustBePositive w)
      else if workers a \<le> 0 \<or> workers a > 200 then (1, print WorkersMustBeBetween1And200 w)
      else
        (case filter_existing_domains (DomainChecker (timeout_arg a) (workers a) (retries a))
                env (input_file a) (output_file a) w of
           (SystemExit status, w1) \<Rightarrow> (status, w1)
         | (Returned, w1) \<Rightarrow> (0, w1)))"

subsection \<open>The names reported, and a run to evaluate\<close>

text \<open>The name in the pair \<^verbatim>\<open>domain_exists\<close> returns for an input.\<close>

definition returned_domain :: "string \<Rightarrow> string" where
  "returned_domain raw = (case normalize_domain raw of Inl d \<Rightarrow> d | Inr d \<Rightarrow> d)"

text \<open>
  The verdicts of the calls of \<^verbatim>\<open>domain_exists\<close> for a list of futures: the pair each
  call returns, the calls made one after the other in the order of the list, each in the
  state the one before it left (with the progress bar advanced by one). The list ends at
  a call that raises.
\<close>

fun verdicts :: "checker \<Rightarrow> env \<Rightarrow> string list \<Rightarrow> world \<Rightarrow> (string \<times> bool) list" where
  "verdicts self env [] w = []"
| "verdicts self env (future # futures) w =
     (case domain_exists self env future w of
        (Inl e, w1) \<Rightarrow> []
      | (Inr verdict, w1) \<Rightarrow>
          verdict # verdicts self env futures (w1\<lparr>progress := progress w1 + 1\<rparr>))"

text \<open>
  A fresh process (nothing looked up, logged or written, no file), an environment without
  faults around a given resolver, in which futures complete in the order of submission
  and the platform's timeout type is as wide as Python's, and the checker \<^verbatim>\<open>DomainChecker()\<close> of the default arguments.
\<close>

definition world0 :: world where
  "world0 = \<lparr>default_timeout = None, lookups = [], sleeps = [], log = [], printed = [],
     progress = 0, fs_calls = [], files = (\<lambda>p. None)\<rparr>"

definition env_of :: "(nat \<Rightarrow> string \<Rightarrow> exn option) \<Rightarrow> env" where
  "env_of resolver = \<lparr>dns = resolver, completes = (\<lambda>k. 0), read_fault = (\<lambda>p. None),
     mkdir_fault = (\<lambda>p. None), open_fault = (\<lambda>p. None), write_fault = (\<lambda>p. None),
     parent = (\<lambda>p. ''.''), timeval_limit = pytime_limit\<rparr>"

definition resolves :: "nat \<Rightarrow> string \<Rightarrow> exn option" where
  "resolves n host = None"

definition times_out :: "nat \<Rightarrow> string \<Rightarrow> exn option" where
  "times_out n host = Some (Exn Timeout ''timed out'')"

definition not_found :: "nat \<Rightarrow> string \<Rightarrow> exn option" where
  "not_found n host = Some (Exn Gaierror ''Name or service not known'')"

definition breaks :: "nat \<Rightarrow> string \<Rightarrow> exn option" where
  "breaks n host = Some (Exn Exception ''unexpected'')"

text \<open>A resolver that knows \<open>google.com\<close> and no other name.\<close>

definition only_google :: "nat \<Rightarrow> string \<Rightarrow> exn option" where
  "only_google n host =
     (if host = ''google.com'' then None else Some (Exn Gaierror ''Name or service not known''))"

text \<open>A resolver whose first call times out and whose later calls succeed.\<close>

definition flaky :: "nat \<Rightarrow> string \<Rightarrow> exn option" where
  "flaky n host = (if n = 0 then Some (Exn Timeout ''timed out'') else None)"

text \<open>A raw string of 263 characters whose host part is \<open>a.com\<close>.\<close>

definition long_raw :: string where
  "long_raw = ''http://a.com/'' @ replicate 250 CHR ''x''"

text \<open>The input lines of the scenario of the specification, in a file \<open>domains.txt\<close>.\<close>

definition scenario_lines :: "string list" where
  "scenario_lines =
     [''google.com'', ''WWW.Google.com'', '''', ''# comment'',
      ''nonexistent-domain-abc123xyz.invalid'']"

definition scenario_world :: world where
  "scenario_world =
     world0\<lparr>files := (\<lambda>p. if p = ''domains.txt'' then Some scenario_lines else None)\<rparr>"

text \<open>The command line \<^verbatim>\<open>domains.txt valid.txt -r -1\<close>.\<close>

definition negative_retries_args :: args where
  "negative_retries_args =
     \<lparr>input_file = ''domains.txt'', output_file = ''valid.txt'', timeout_arg = Finite 5,
      workers = 50, retries = - 1, verbose = False\<rparr>"

definition default_checker :: checker where
  "default_checker = DomainChecker (Finite 5) 50 2"

section \<open>Properties of the string functions\<close>

lemma of_char_lower_char:
  "of_char (lower_char c) = (let n = of_char c :: nat
      in if (65 \<le> n \<and> n \<le> 90) \<or> (192 \<le> n \<and> n \<le> 222 \<and> n \<noteq> 215)
         then n + 32 else n)"
  by (simp add: lower_char_def Let_def)

lemma lower_char_idem: "lower_char (lower_char c) = lower_char c"
proof -
  have "(of_char (lower_char (lower_char c)) :: nat) = of_char (lower_char c)"
    by (simp add: of_char_lower_char Let_def)
  then show ?thesis by simp
qed

lemma lower_char_eq_plain:
  assumes "(of_char d :: nat) < 65"
  shows "lower_char c = d \<longleftrightarrow> c = d"
proof -
  have "(of_char (lower_char c) :: nat) = of_char d \<longleftrightarrow> (of_char c :: nat) = of_char d"
    using assms by (auto simp add: of_char_lower_char Let_def)
  then show ?thesis by simp
qed

lemma isspace_lower_char: "isspace (lower_char c) = isspace c"
  by (auto simp add: isspace_def of_char_lower_char Let_def)

lemma length_lower: "length (lower s) = length s"
  by (simp add: lower_def)

lemma lower_idem: "lower (lower s) = lower s"
  by (simp add: lower_def lower_char_idem)

lemma lower_char_dot: "lower_char c = CHR ''.'' \<longleftrightarrow> c = CHR ''.''"
  by (rule lower_char_eq_plain) simp

lemma dot_in_lower: "CHR ''.'' \<in> set (lower s) \<longleftrightarrow> CHR ''.'' \<in> set s"
proof (induction s)
  case Nil
  show ?case by (simp add: lower_def)
next
  case (Cons c s)
  have "CHR ''.'' = lower_char c \<longleftrightarrow> CHR ''.'' = c"
    using lower_char_dot [of c] by (simp only: eq_commute)
  with Cons show ?case by (simp add: lower_def)
qed

lemma lower_fixed: "\<forall>c \<in> set s. lower_char c = c \<Longrightarrow> lower s = s"
  by (simp add: lower_def map_idI)

lemma lower_strip: "lower (strip s) = strip (lower s)"
proof -
  have dw: "map lower_char (dropWhile isspace xs) = dropWhile isspace (map lower_char xs)" for xs
    by (induction xs) (simp_all add: isspace_lower_char)
  have "map lower_char (rev (dropWhile isspace (rev (dropWhile isspace s))))
      = rev (dropWhile isspace (map lower_char (rev (dropWhile isspace s))))"
    by (simp only: rev_map [symmetric] dw)
  also have "\<dots> = rev (dropWhile isspace (rev (dropWhile isspace (map lower_char s))))"
    by (simp only: rev_map [symmetric] dw)
  finally show ?thesis
    by (simp only: lower_def strip_def)
qed

subsection \<open>Prefixes and the format check\<close>

lemma removeprefix_suffix: "\<exists>k \<le> length p. removeprefix p d = drop k d"
proof (cases "startswith d p")
  case True
  then have "length p \<le> length p \<and> removeprefix p d = drop (length p) d"
    by (simp add: removeprefix_def)
  then show ?thesis by (rule exI)
next
  case False
  then have "0 \<le> length p \<and> removeprefix p d = drop 0 d"
    by (simp add: removeprefix_def)
  then show ?thesis by (rule exI)
qed

lemma remove_prefixes_unfold:
  "remove_prefixes d = removeprefix ''www.'' (removeprefix ''https://'' (removeprefix ''http://'' d))"
  by (simp add: remove_prefixes_def)

lemma remove_prefixes_suffix: "\<exists>k \<le> 19. remove_prefixes d = drop k d"
proof -
  from removeprefix_suffix [of "''http://''" d]
  obtain k1 where k1: "k1 \<le> length ''http://''" "removeprefix ''http://'' d = drop k1 d"
    by (elim exE conjE)
  from removeprefix_suffix [of "''https://''" "drop k1 d"]
  obtain k2 where k2: "k2 \<le> length ''https://''"
      "removeprefix ''https://'' (drop k1 d) = drop k2 (drop k1 d)"
    by (elim exE conjE)
  from removeprefix_suffix [of "''www.''" "drop k2 (drop k1 d)"]
  obtain k3 where k3: "k3 \<le> length ''www.''"
      "removeprefix ''www.'' (drop k2 (drop k1 d)) = drop k3 (drop k2 (drop k1 d))"
    by (elim exE conjE)
  have "remove_prefixes d = drop (k3 + k2 + k1) d"
    unfolding remove_prefixes_unfold k1(2) k2(2) k3(2) by (simp add: add.assoc)
  moreover have "k3 + k2 + k1 \<le> 19" using k1(1) k2(1) k3(1) by simp
  ultimately show ?thesis by blast
qed

lemma remove_prefixes_examples:
  "remove_prefixes (''http://www.'' @ s) = s"
  "remove_prefixes (''https://www.'' @ s) = s"
  "remove_prefixes (''http://https://www.'' @ s) = s"
  "remove_prefixes (''www.www.'' @ s) = ''www.'' @ s"
  "remove_prefixes (''http://http://'' @ s) = ''http://'' @ s"
  "remove_prefixes (''www.http://'' @ s) = ''http://'' @ s"
  by (simp_all add: remove_prefixes_def removeprefix_def startswith_def)

lemma strip_no_space:
  assumes "s \<noteq> []" and "\<not> isspace (hd s)" and "\<not> isspace (last s)"
  shows "strip s = s"
proof -
  have "dropWhile isspace s = s"
    using assms(2) by (simp add: dropWhile_eq_self_iff)
  moreover have "dropWhile isspace (rev s) = rev s"
    using assms(1,3) by (simp add: dropWhile_eq_self_iff hd_rev)
  ultimately show ?thesis by (simp add: strip_def)
qed

lemma normalize_domain_accepted:
  assumes "normalize_domain raw = Inr d"
  shows "lower (strip raw) \<noteq> []" and "CHR ''.'' \<in> set (lower (strip raw))"
    and "length (lower (strip raw)) \<le> 253"
    and "d = split_first CHR ''?'' (split_first CHR ''/'' (remove_prefixes (lower (strip raw))))"
  using assms by (simp_all add: normalize_domain_def Let_def split: if_splits)

lemma normalize_domain_rejected:
  assumes "normalize_domain raw = Inl d"
  shows "d = lower (strip raw)"
    and "d = [] \<or> CHR ''.'' \<notin> set d \<or> 253 < length d"
  using assms by (auto simp add: normalize_domain_def Let_def split: if_splits)

lemma split_first_absent: "sep \<notin> set s \<Longrightarrow> split_first sep s = s"
  by (auto simp add: split_first_def takeWhile_eq_all_conv)

lemma split_first_free: "sep \<notin> set (split_first sep s)"
proof
  assume "sep \<in> set (split_first sep s)"
  then have "sep \<noteq> sep" unfolding split_first_def by (rule set_takeWhileD [THEN conjunct2])
  then show False by simp
qed

lemma set_split_first: "set (split_first sep s) \<subseteq> set s"
  unfolding split_first_def by (auto dest: set_takeWhileD)

lemma length_split_first: "length (split_first sep s) \<le> length s"
  unfolding split_first_def by (rule length_takeWhile_le)

lemma remove_prefixes_absent:
  assumes "\<not> startswith d ''http://''" and "\<not> startswith d ''https://''"
    and "\<not> startswith d ''www.''"
  shows "remove_prefixes d = d"
  using assms by (simp add: remove_prefixes_unfold removeprefix_def)

lemma normalized_parts:
  assumes "normalize_domain raw = Inr d"
  shows "lower d = d" and "length d \<le> 253"
    and "CHR ''/'' \<notin> set d" and "CHR ''?'' \<notin> set d"
proof -
  let ?x = "lower (strip raw)"
  note acc = normalize_domain_accepted [OF assms]
  obtain k where k: "remove_prefixes ?x = drop k ?x"
    using remove_prefixes_suffix [of ?x] by (elim exE conjE)
  have sub: "set d \<subseteq> set ?x"
  proof -
    have "set d \<subseteq> set (split_first CHR ''/'' (remove_prefixes ?x))"
      unfolding acc(4) by (rule set_split_first)
    also have "\<dots> \<subseteq> set (remove_prefixes ?x)" by (rule set_split_first)
    also have "\<dots> \<subseteq> set ?x" unfolding k by (rule set_drop_subset)
    finally show ?thesis .
  qed
  have "\<forall>c \<in> set d. lower_char c = c"
  proof
    fix c assume "c \<in> set d"
    with sub have "c \<in> set (map lower_char (strip raw))" by (auto simp add: lower_def)
    then obtain c' where "c = lower_char c'" by auto
    then show "lower_char c = c" by (simp add: lower_char_idem)
  qed
  then show "lower d = d" by (rule lower_fixed)
  have "length d \<le> length (split_first CHR ''/'' (remove_prefixes ?x))"
    unfolding acc(4) by (rule length_split_first)
  also have "\<dots> \<le> length (remove_prefixes ?x)" by (rule length_split_first)
  also have "\<dots> \<le> length ?x" unfolding k by simp
  finally show "length d \<le> 253" using acc(3) by simp
  show "CHR ''?'' \<notin> set d" unfolding acc(4) by (rule split_first_free)
  have "CHR ''/'' \<notin> set (split_first CHR ''/'' (remove_prefixes ?x))" by (rule split_first_free)
  then show "CHR ''/'' \<notin> set d"
    unfolding acc(4) using set_split_first [of "CHR ''?''"] by blast
qed

lemma normalize_domain_fixed:
  assumes "lower d = d" and "strip d = d" and "CHR ''.'' \<in> set d" and "length d \<le> 253"
    and "CHR ''/'' \<notin> set d" and "CHR ''?'' \<notin> set d"
    and "\<not> startswith d ''http://''" and "\<not> startswith d ''https://''"
    and "\<not> startswith d ''www.''"
  shows "normalize_domain d = Inr d"
proof -
  have ne: "d \<noteq> []" using assms(3) by auto
  have rp: "remove_prefixes d = d" using assms(7-9) by (rule remove_prefixes_absent)
  show ?thesis
    using ne assms(3,4)
    by (simp add: normalize_domain_def assms(1,2) rp split_first_absent assms(5,6))
qed

section \<open>The retry loop\<close>

lemma isinstance_Exception: "isinstance e Exception"
  by (cases "cls e") (simp_all add: isinstance_def)

lemma isinstance_Timeout: "isinstance e Timeout \<longleftrightarrow> cls e = Timeout"
  by (cases "cls e") (simp_all add: isinstance_def)

lemma isinstance_Gaierror: "isinstance e Gaierror \<longleftrightarrow> cls e = Gaierror"
  by (cases "cls e") (simp_all add: isinstance_def)

lemma try_lookup_ok:
  assumes "timeout_error env (timeout self) = None"
  shows "try_lookup self env d w =
    (case dns env (length (lookups w)) d of
       None \<Rightarrow> (None, w\<lparr>lookups := lookups w @ [d]\<rparr>)
     | Some e \<Rightarrow> (Some e, w\<lparr>default_timeout := Some (seconds (timeout self)), lookups := lookups w @ [d]\<rparr>))"
  using assms
  by (simp add: try_lookup_def setdefaulttimeout_def gethostbyname_def Let_def split: option.splits)

lemma timeout_error_class:
  assumes "timeout_error env t = Some e"
  shows "\<not> isinstance e Gaierror" and "\<not> isinstance e Timeout"
  using assms
  by (auto simp add: timeout_error_def isinstance_def split: pyfloat.splits if_splits)

lemma timeout_error_None_iff:
  "timeout_error env t = None \<longleftrightarrow>
     (\<exists>r. t = Finite r \<and> 0 \<le> r \<and> r \<le> pytime_limit \<and> r \<le> timeval_limit env)"
  by (cases t) (auto simp add: timeout_error_def)

lemma try_lookup_refused:
  assumes "timeout_error env (timeout self) = Some e"
  shows "try_lookup self env d w = (Some e, w)"
  using assms by (simp add: try_lookup_def setdefaulttimeout_def)

lemma step_resolved:
  assumes "timeout_error env (timeout self) = None" and "dns env (length (lookups w)) d = None"
  shows "retry_loop self env d (a # rest) w = (Inr (d, True), w\<lparr>lookups := lookups w @ [d]\<rparr>)"
  using assms by (simp add: try_lookup_ok)

lemma step_gaierror:
  assumes "timeout_error env (timeout self) = None" and "dns env (length (lookups w)) d = Some e"
    and "isinstance e Gaierror"
  shows "retry_loop self env d (a # rest) w = (Inr (d, False), w\<lparr>lookups := lookups w @ [d]\<rparr>)"
  using assms by (simp add: try_lookup_ok)

lemma step_timeout_again:
  assumes "timeout_error env (timeout self) = None" and "dns env (length (lookups w)) d = Some e"
    and "isinstance e Timeout" and "a < retry_count self"
  shows "retry_loop self env d (a # rest) w =
    retry_loop self env d rest (w\<lparr>lookups := lookups w @ [d], sleeps := sleeps w @ [1 / 2]\<rparr>)"
  using assms by (simp add: try_lookup_ok isinstance_Timeout isinstance_Gaierror)

lemma step_timeout_last:
  assumes "timeout_error env (timeout self) = None" and "dns env (length (lookups w)) d = Some e"
    and "isinstance e Timeout" and "\<not> a < retry_count self"
  shows "retry_loop self env d (a # rest) w = (Inr (d, False), w\<lparr>lookups := lookups w @ [d]\<rparr>)"
  using assms by (simp add: try_lookup_ok isinstance_Timeout isinstance_Gaierror)

lemma step_unexpected:
  assumes "timeout_error env (timeout self) = None" and "dns env (length (lookups w)) d = Some e"
    and "\<not> isinstance e Gaierror" and "\<not> isinstance e Timeout"
  shows "retry_loop self env d (a # rest) w =
    (Inr (d, False), logger DEBUG (UnexpectedErrorChecking d e) (w\<lparr>lookups := lookups w @ [d]\<rparr>))"
  using assms by (simp add: try_lookup_ok isinstance_Exception)

lemma step_refused:
  assumes "timeout_error env (timeout self) = Some e"
  shows "retry_loop self env d (a # rest) w =
    (Inr (d, False), logger DEBUG (UnexpectedErrorChecking d e) w)"
  using timeout_error_class [OF assms]
  by (simp add: try_lookup_refused [OF assms] isinstance_Exception)

text \<open>\<open>j\<close> timeouts in a row, each with a retry left, are \<open>j\<close> lookups and \<open>j\<close> sleeps.\<close>

lemma retry_loop_timeouts:
  assumes "timeout_error env (timeout self) = None"
    and "a + int j \<le> retry_count self"
    and "\<forall>i<j. \<exists>e. dns env (length (lookups w) + i) d = Some e \<and> isinstance e Timeout"
  shows "retry_loop self env d [a..retry_count self] w =
    retry_loop self env d [a + int j..retry_count self]
      (w\<lparr>lookups := lookups w @ replicate j d, sleeps := sleeps w @ replicate j (1 / 2)\<rparr>)"
  using assms(2,3)
proof (induction j arbitrary: a w)
  case 0
  show ?case by simp
next
  case (Suc j)
  let ?w1 = "w\<lparr>lookups := lookups w @ [d], sleeps := sleeps w @ [1 / 2]\<rparr>"
  from Suc.prems(2) obtain e where e: "dns env (length (lookups w)) d = Some e"
      "isinstance e Timeout"
    by fastforce
  have lt: "a < retry_count self" using Suc.prems(1) by simp
  have "[a..retry_count self] = a # [a + 1..retry_count self]"
    using lt by (simp add: upto_rec1)
  then have "retry_loop self env d [a..retry_count self] w =
      retry_loop self env d [a + 1..retry_count self] ?w1"
    using step_timeout_again [OF assms(1) e lt] by simp
  also have "\<dots> = retry_loop self env d [a + 1 + int j..retry_count self]
      (?w1\<lparr>lookups := lookups ?w1 @ replicate j d, sleeps := sleeps ?w1 @ replicate j (1 / 2)\<rparr>)"
  proof (rule Suc.IH)
    show "a + 1 + int j \<le> retry_count self" using Suc.prems(1) by simp
    show "\<forall>i<j. \<exists>e. dns env (length (lookups ?w1) + i) d = Some e \<and> isinstance e Timeout"
    proof (intro allI impI)
      fix i assume "i < j"
      then have "Suc i < Suc j" by simp
      with Suc.prems(2) have "\<exists>e. dns env (length (lookups w) + Suc i) d = Some e
          \<and> isinstance e Timeout" by blast
      then show "\<exists>e. dns env (length (lookups ?w1) + i) d = Some e \<and> isinstance e Timeout"
        by simp
    qed
  qed
  also have "a + 1 + int j = a + int (Suc j)" by simp
  also have "?w1\<lparr>lookups := lookups ?w1 @ replicate j d,
        sleeps := sleeps ?w1 @ replicate j (1 / 2)\<rparr> =
      w\<lparr>lookups := lookups w @ replicate (Suc j) d,
        sleeps := sleeps w @ replicate (Suc j) (1 / 2)\<rparr>"
    by simp
  finally show ?case .
qed

text \<open>Whatever the resolver does, the loop returns a pair that names the domain it was given.\<close>

lemma retry_loop_returns:
  "\<exists>b w'. retry_loop self env d atts w = (Inr (d, b), w')"
proof (induction atts arbitrary: w)
  case Nil
  show ?case by auto
next
  case (Cons a atts)
  obtain r w1 where t: "try_lookup self env d w = (r, w1)" by (cases "try_lookup self env d w")
  show ?case
  proof (cases r)
    case None
    with t show ?thesis by auto
  next
    case (Some e)
    let ?w2 = "w1\<lparr>default_timeout := default_timeout w\<rparr>"
    from Cons.IH [of "?w2\<lparr>sleeps := sleeps ?w2 @ [1 / 2]\<rparr>"]
    obtain b w' where "retry_loop self env d atts (?w2\<lparr>sleeps := sleeps ?w2 @ [1 / 2]\<rparr>)
        = (Inr (d, b), w')" by blast
    with t Some show ?thesis by (auto simp add: isinstance_Exception Let_def)
  qed
qed

lemma try_lookup_frame:
  assumes "try_lookup self env d w = (r, w1)"
  shows "fs_calls w1 = fs_calls w" and "files w1 = files w" and "progress w1 = progress w"
    and "printed w1 = printed w"
  using assms
  by (auto simp add: try_lookup_def setdefaulttimeout_def gethostbyname_def Let_def
      split: if_splits option.splits)

lemma retry_loop_frame:
  assumes "retry_loop self env d atts w = (r, w')"
  shows "fs_calls w' = fs_calls w \<and> files w' = files w \<and> progress w' = progress w
    \<and> printed w' = printed w"
  using assms
proof (induction atts arbitrary: w)
  case Nil
  then show ?case by simp
next
  case (Cons a atts)
  obtain r1 w1 where t: "try_lookup self env d w = (r1, w1)" by (cases "try_lookup self env d w")
  note fr = try_lookup_frame [OF t]
  show ?case
  proof (cases r1)
    case None
    with t Cons.prems fr show ?thesis by auto
  next
    case (Some e)
    let ?w2 = "w1\<lparr>default_timeout := default_timeout w\<rparr>"
    let ?w3 = "?w2\<lparr>sleeps := sleeps ?w2 @ [1 / 2]\<rparr>"
    show ?thesis
    proof (cases "isinstance e Timeout \<and> \<not> isinstance e Gaierror \<and> a < retry_count self")
      case True
      with t Some Cons.prems have "retry_loop self env d atts ?w3 = (r, w')" by simp
      from Cons.IH [OF this] fr show ?thesis by simp
    next
      case False
      with t Some Cons.prems fr show ?thesis
        by (auto simp add: isinstance_Exception logger_def Let_def split: if_splits)
    qed
  qed
qed

lemma domain_exists_accepted:
  assumes "normalize_domain raw = Inr d"
  shows "domain_exists self env raw w = retry_loop self env d [0..retry_count self] w"
  using assms by (simp add: domain_exists_def)

lemma domain_exists_rejected:
  assumes "normalize_domain raw = Inl d"
  shows "domain_exists self env raw w = (Inr (d, False), w)"
  using assms by (simp add: domain_exists_def)

lemma domain_exists_returns:
  "\<exists>b w'. domain_exists self env raw w = (Inr (returned_domain raw, b), w')"
proof (cases "normalize_domain raw")
  case (Inl d)
  then show ?thesis by (auto simp add: domain_exists_def returned_domain_def)
next
  case (Inr d)
  with retry_loop_returns [of self env d "[0..retry_count self]" w]
  show ?thesis by (simp add: domain_exists_def returned_domain_def)
qed

text \<open>The deciding attempt: \<open>j\<close> timeouts, then an outcome that is not a timeout.\<close>

lemma retry_loop_decided:
  assumes t: "timeout_error env (timeout self) = None" and j: "int j \<le> retry_count self"
    and to: "\<forall>i<j. \<exists>e. dns env (length (lookups w) + i) d = Some e \<and> isinstance e Timeout"
  shows "dns env (length (lookups w) + j) d = None \<Longrightarrow>
      retry_loop self env d [0..retry_count self] w =
        (Inr (d, True),
         w\<lparr>lookups := lookups w @ replicate (Suc j) d, sleeps := sleeps w @ replicate j (1 / 2)\<rparr>)"
    and "dns env (length (lookups w) + j) d = Some e \<Longrightarrow> isinstance e Gaierror \<Longrightarrow>
      retry_loop self env d [0..retry_count self] w =
        (Inr (d, False),
         w\<lparr>lookups := lookups w @ replicate (Suc j) d, sleeps := sleeps w @ replicate j (1 / 2)\<rparr>)"
    and "dns env (length (lookups w) + j) d = Some e \<Longrightarrow> \<not> isinstance e Gaierror \<Longrightarrow>
        \<not> isinstance e Timeout \<Longrightarrow>
      retry_loop self env d [0..retry_count self] w =
        (Inr (d, False),
         logger DEBUG (UnexpectedErrorChecking d e)
           (w\<lparr>lookups := lookups w @ replicate (Suc j) d,
              sleeps := sleeps w @ replicate j (1 / 2)\<rparr>))"
proof -
  let ?wj = "w\<lparr>lookups := lookups w @ replicate j d, sleeps := sleeps w @ replicate j (1 / 2)\<rparr>"
  have run: "retry_loop self env d [0..retry_count self] w =
      retry_loop self env d [int j..retry_count self] ?wj"
    using retry_loop_timeouts [OF t _ to, where a = 0] j by simp
  have up: "[int j..retry_count self] = int j # [int j + 1..retry_count self]"
    using j by (simp add: upto_rec1)
  have len: "length (lookups ?wj) = length (lookups w) + j" by simp
  have rep: "replicate j d @ [d] = replicate (Suc j) d"
    by (simp add: replicate_append_same)
  {
    assume "dns env (length (lookups w) + j) d = None"
    then have "dns env (length (lookups ?wj)) d = None" by (simp only: len)
    from step_resolved [OF t this, where a = "int j" and rest = "[int j + 1..retry_count self]"]
    show "retry_loop self env d [0..retry_count self] w =
        (Inr (d, True),
         w\<lparr>lookups := lookups w @ replicate (Suc j) d, sleeps := sleeps w @ replicate j (1 / 2)\<rparr>)"
      by (simp add: run up rep)
  }
  {
    assume "dns env (length (lookups w) + j) d = Some e" and g: "isinstance e Gaierror"
    then have "dns env (length (lookups ?wj)) d = Some e" by (simp only: len)
    from step_gaierror [OF t this g, where a = "int j" and rest = "[int j + 1..retry_count self]"]
    show "retry_loop self env d [0..retry_count self] w =
        (Inr (d, False),
         w\<lparr>lookups := lookups w @ replicate (Suc j) d, sleeps := sleeps w @ replicate j (1 / 2)\<rparr>)"
      by (simp add: run up rep)
  }
  {
    assume "dns env (length (lookups w) + j) d = Some e" and g: "\<not> isinstance e Gaierror"
      and n: "\<not> isinstance e Timeout"
    then have "dns env (length (lookups ?wj)) d = Some e" by (simp only: len)
    from step_unexpected [OF t this g n, where a = "int j" and rest = "[int j + 1..retry_count self]"]
    show "retry_loop self env d [0..retry_count self] w =
        (Inr (d, False),
         logger DEBUG (UnexpectedErrorChecking d e)
           (w\<lparr>lookups := lookups w @ replicate (Suc j) d,
              sleeps := sleeps w @ replicate j (1 / 2)\<rparr>))"
      by (simp add: run up rep logger_def)
  }
qed

text \<open>Timeouts throughout: \<open>retry_count + 1\<close> lookups, a sleep before each but the first.\<close>

lemma retry_loop_exhausted:
  assumes t: "timeout_error env (timeout self) = None" and rc: "0 \<le> retry_count self"
    and to: "\<forall>n. \<exists>e. dns env n d = Some e \<and> isinstance e Timeout"
  shows "retry_loop self env d [0..retry_count self] w =
    (Inr (d, False),
     w\<lparr>lookups := lookups w @ replicate (nat (retry_count self + 1)) d,
       sleeps := sleeps w @ replicate (nat (retry_count self)) (1 / 2)\<rparr>)"
proof -
  let ?j = "nat (retry_count self)"
  let ?wj = "w\<lparr>lookups := lookups w @ replicate ?j d, sleeps := sleeps w @ replicate ?j (1 / 2)\<rparr>"
  have run: "retry_loop self env d [0..retry_count self] w =
      retry_loop self env d [int ?j..retry_count self] ?wj"
    using retry_loop_timeouts [OF t, where a = 0 and j = ?j and w = w and d = d]
      rc to by simp
  have up: "[int ?j..retry_count self] = [retry_count self]"
    using rc by (simp add: upto_rec1)
  obtain e where e: "dns env (length (lookups ?wj)) d = Some e" "isinstance e Timeout"
    using to by blast
  have rep: "replicate ?j d @ [d] = replicate (nat (retry_count self + 1)) d"
    using rc by (simp add: replicate_append_same nat_add_distrib)
  from step_timeout_last [OF t e, where a = "retry_count self" and rest = "[]"]
  show ?thesis by (simp add: run up rep)
qed

section \<open>The retry policy and the handling of errors\<close>

lemma retry_policy_accepted:
  assumes "normalize_domain raw = Inr d" and "0 \<le> retry_count self"
    and "timeout_error env (timeout self) = None"
  shows "((\<forall>n. \<exists>e. dns env n d = Some e \<and> isinstance e Timeout) \<longrightarrow>
            domain_exists self env raw w =
              (Inr (d, False),
               w\<lparr>lookups := lookups w @ replicate (nat (retry_count self + 1)) d,
                 sleeps := sleeps w @ replicate (nat (retry_count self)) (1 / 2)\<rparr>))
       \<and> ((\<exists>e. dns env (length (lookups w)) d = Some e \<and> isinstance e Gaierror) \<longrightarrow>
            domain_exists self env raw w = (Inr (d, False), w\<lparr>lookups := lookups w @ [d]\<rparr>))
       \<and> (dns env (length (lookups w)) d = None \<longrightarrow>
            domain_exists self env raw w = (Inr (d, True), w\<lparr>lookups := lookups w @ [d]\<rparr>))
       \<and> (int j \<le> retry_count self
            \<and> (\<forall>i<j. \<exists>e. dns env (length (lookups w) + i) d = Some e \<and> isinstance e Timeout)
            \<and> \<not> (\<exists>e. dns env (length (lookups w) + j) d = Some e \<and> isinstance e Timeout) \<longrightarrow>
            lookups (snd (domain_exists self env raw w)) = lookups w @ replicate (Suc j) d
            \<and> sleeps (snd (domain_exists self env raw w)) = sleeps w @ replicate j (1 / 2)
            \<and> fst (domain_exists self env raw w)
                = Inr (d, dns env (length (lookups w) + j) d = None))"
proof -
  note de = domain_exists_accepted [OF assms(1)]
  have first: "\<forall>i<(0::nat). \<exists>e. dns env (length (lookups w) + i) d = Some e \<and> isinstance e Timeout"
    by simp
  have zero: "int 0 \<le> retry_count self" using assms(2) by simp
  have a: "(\<forall>n. \<exists>e. dns env n d = Some e \<and> isinstance e Timeout) \<longrightarrow>
            domain_exists self env raw w =
              (Inr (d, False),
               w\<lparr>lookups := lookups w @ replicate (nat (retry_count self + 1)) d,
                 sleeps := sleeps w @ replicate (nat (retry_count self)) (1 / 2)\<rparr>)"
    using retry_loop_exhausted [OF assms(3,2)] by (simp add: de)
  have b: "(\<exists>e. dns env (length (lookups w)) d = Some e \<and> isinstance e Gaierror) \<longrightarrow>
            domain_exists self env raw w = (Inr (d, False), w\<lparr>lookups := lookups w @ [d]\<rparr>)"
  proof
    assume "\<exists>e. dns env (length (lookups w)) d = Some e \<and> isinstance e Gaierror"
    then obtain e where "dns env (length (lookups w) + 0) d = Some e" "isinstance e Gaierror"
      by auto
    from retry_loop_decided(2) [OF assms(3) zero first this]
    show "domain_exists self env raw w = (Inr (d, False), w\<lparr>lookups := lookups w @ [d]\<rparr>)"
      by (simp add: de)
  qed
  have c: "dns env (length (lookups w)) d = None \<longrightarrow>
            domain_exists self env raw w = (Inr (d, True), w\<lparr>lookups := lookups w @ [d]\<rparr>)"
  proof
    assume "dns env (length (lookups w)) d = None"
    then have "dns env (length (lookups w) + 0) d = None" by simp
    from retry_loop_decided(1) [OF assms(3) zero first this]
    show "domain_exists self env raw w = (Inr (d, True), w\<lparr>lookups := lookups w @ [d]\<rparr>)"
      by (simp add: de)
  qed
  have g: "int j \<le> retry_count self
            \<and> (\<forall>i<j. \<exists>e. dns env (length (lookups w) + i) d = Some e \<and> isinstance e Timeout)
            \<and> \<not> (\<exists>e. dns env (length (lookups w) + j) d = Some e \<and> isinstance e Timeout) \<longrightarrow>
            lookups (snd (domain_exists self env raw w)) = lookups w @ replicate (Suc j) d
            \<and> sleeps (snd (domain_exists self env raw w)) = sleeps w @ replicate j (1 / 2)
            \<and> fst (domain_exists self env raw w)
                = Inr (d, dns env (length (lookups w) + j) d = None)"
  proof (intro impI, elim conjE)
    assume j: "int j \<le> retry_count self"
      and to: "\<forall>i<j. \<exists>e. dns env (length (lookups w) + i) d = Some e \<and> isinstance e Timeout"
      and nt: "\<not> (\<exists>e. dns env (length (lookups w) + j) d = Some e \<and> isinstance e Timeout)"
    note dec = retry_loop_decided [OF assms(3) j to]
    show "lookups (snd (domain_exists self env raw w)) = lookups w @ replicate (Suc j) d
        \<and> sleeps (snd (domain_exists self env raw w)) = sleeps w @ replicate j (1 / 2)
        \<and> fst (domain_exists self env raw w)
            = Inr (d, dns env (length (lookups w) + j) d = None)"
    proof (cases "dns env (length (lookups w) + j) d")
      case None
      from dec(1) [OF None] show ?thesis by (simp add: de None)
    next
      case (Some e)
      with nt have ne: "\<not> isinstance e Timeout" by simp
      show ?thesis
      proof (cases "isinstance e Gaierror")
        case True
        from dec(2) [OF Some True] show ?thesis by (simp add: de Some)
      next
        case False
        from dec(3) [OF Some False ne] show ?thesis by (simp add: de Some logger_def)
      qed
    qed
  qed
  from a b c g show ?thesis by (intro conjI)
qed

lemma domain_exists_no_attempt:
  assumes "normalize_domain raw = Inr d" and "retry_count self < 0"
  shows "domain_exists self env raw w = (Inr (d, False), w)"
proof -
  have "[0..retry_count self] = []" using assms(2) by simp
  then show ?thesis by (simp add: domain_exists_accepted [OF assms(1)])
qed

lemma domain_exists_refused:
  assumes "normalize_domain raw = Inr d" and "0 \<le> retry_count self"
    and "timeout_error env (timeout self) = Some e"
  shows "domain_exists self env raw w =
    (Inr (d, False), logger DEBUG (UnexpectedErrorChecking d e) w)"
proof -
  have "[0..retry_count self] = 0 # [0 + 1..retry_count self]"
    using assms(2) by (simp add: upto_rec1)
  then show ?thesis
    using step_refused [OF assms(3), where d = d and a = 0
        and rest = "[0 + 1..retry_count self]" and w = w]
    by (simp only: domain_exists_accepted [OF assms(1)])
qed

text \<open>
  C2 (amended). The retry loop of \<^verbatim>\<open>domain_exists\<close>, for a name that passes the format
  check. With \<open>retry_count \<ge> 0\<close> and a timeout that \<^verbatim>\<open>socket.setdefaulttimeout\<close> takes (a
  finite value from 0 to the platform's limit): if every lookup times out, the call
  returns \<open>(domain, False)\<close> after exactly \<open>retry_count + 1\<close> lookups of the name (with
  \<open>retry_count\<close> sleeps between them); if the first lookup reports not-found
  (\<^verbatim>\<open>gaierror\<close>), it returns \<open>(domain, False)\<close> after that one lookup, and if the first
  lookup resolves, \<open>(domain, True)\<close> after that one lookup; in general only a timeout is
  retried: after \<open>j \<le> retry_count\<close> timeouts, an outcome that is not a timeout ends the
  call with \<open>j + 1\<close> lookups made. With \<open>retry_count < 0\<close> the loop makes no attempt and
  the call returns \<open>(domain, False)\<close> with no effect. With \<open>retry_count \<ge> 0\<close> and a timeout
  that \<^verbatim>\<open>socket.setdefaulttimeout\<close> refuses (NaN, negative, an infinity, beyond the
  limit) no lookup is made either: the first attempt ends the call with
  \<open>(domain, False)\<close> and one \<^verbatim>\<open>logger.debug\<close> call.
\<close>

theorem domain_exists_retry_policy:
  assumes "normalize_domain raw = Inr d"
  shows "(0 \<le> retry_count self \<and> timeout_error env (timeout self) = None \<longrightarrow>
          ((\<forall>n. \<exists>e. dns env n d = Some e \<and> isinstance e Timeout) \<longrightarrow>
            domain_exists self env raw w =
              (Inr (d, False),
               w\<lparr>lookups := lookups w @ replicate (nat (retry_count self + 1)) d,
                 sleeps := sleeps w @ replicate (nat (retry_count self)) (1 / 2)\<rparr>))
          \<and> ((\<exists>e. dns env (length (lookups w)) d = Some e \<and> isinstance e Gaierror) \<longrightarrow>
            domain_exists self env raw w = (Inr (d, False), w\<lparr>lookups := lookups w @ [d]\<rparr>))
          \<and> (dns env (length (lookups w)) d = None \<longrightarrow>
            domain_exists self env raw w = (Inr (d, True), w\<lparr>lookups := lookups w @ [d]\<rparr>))
          \<and> (int j \<le> retry_count self
            \<and> (\<forall>i<j. \<exists>e. dns env (length (lookups w) + i) d = Some e \<and> isinstance e Timeout)
            \<and> \<not> (\<exists>e. dns env (length (lookups w) + j) d = Some e \<and> isinstance e Timeout) \<longrightarrow>
            lookups (snd (domain_exists self env raw w)) = lookups w @ replicate (Suc j) d
            \<and> sleeps (snd (domain_exists self env raw w)) = sleeps w @ replicate j (1 / 2)
            \<and> fst (domain_exists self env raw w)
                = Inr (d, dns env (length (lookups w) + j) d = None)))
       \<and> (retry_count self < 0 \<longrightarrow> domain_exists self env raw w = (Inr (d, False), w))
       \<and> (0 \<le> retry_count self \<and> timeout_error env (timeout self) = Some x \<longrightarrow>
            domain_exists self env raw w =
              (Inr (d, False), logger DEBUG (UnexpectedErrorChecking d x) w))"
proof -
  have accepted: "0 \<le> retry_count self \<and> timeout_error env (timeout self) = None \<longrightarrow>
          ((\<forall>n. \<exists>e. dns env n d = Some e \<and> isinstance e Timeout) \<longrightarrow>
            domain_exists self env raw w =
              (Inr (d, False),
               w\<lparr>lookups := lookups w @ replicate (nat (retry_count self + 1)) d,
                 sleeps := sleeps w @ replicate (nat (retry_count self)) (1 / 2)\<rparr>))
          \<and> ((\<exists>e. dns env (length (lookups w)) d = Some e \<and> isinstance e Gaierror) \<longrightarrow>
            domain_exists self env raw w = (Inr (d, False), w\<lparr>lookups := lookups w @ [d]\<rparr>))
          \<and> (dns env (length (lookups w)) d = None \<longrightarrow>
            domain_exists self env raw w = (Inr (d, True), w\<lparr>lookups := lookups w @ [d]\<rparr>))
          \<and> (int j \<le> retry_count self
            \<and> (\<forall>i<j. \<exists>e. dns env (length (lookups w) + i) d = Some e \<and> isinstance e Timeout)
            \<and> \<not> (\<exists>e. dns env (length (lookups w) + j) d = Some e \<and> isinstance e Timeout) \<longrightarrow>
            lookups (snd (domain_exists self env raw w)) = lookups w @ replicate (Suc j) d
            \<and> sleeps (snd (domain_exists self env raw w)) = sleeps w @ replicate j (1 / 2)
            \<and> fst (domain_exists self env raw w)
                = Inr (d, dns env (length (lookups w) + j) d = None))"
  proof
    assume "0 \<le> retry_count self \<and> timeout_error env (timeout self) = None"
    then have rc: "0 \<le> retry_count self" and t: "timeout_error env (timeout self) = None"
      by simp_all
    from retry_policy_accepted [OF assms rc t, of w j]
    show "((\<forall>n. \<exists>e. dns env n d = Some e \<and> isinstance e Timeout) \<longrightarrow>
            domain_exists self env raw w =
              (Inr (d, False),
               w\<lparr>lookups := lookups w @ replicate (nat (retry_count self + 1)) d,
                 sleeps := sleeps w @ replicate (nat (retry_count self)) (1 / 2)\<rparr>))
          \<and> ((\<exists>e. dns env (length (lookups w)) d = Some e \<and> isinstance e Gaierror) \<longrightarrow>
            domain_exists self env raw w = (Inr (d, False), w\<lparr>lookups := lookups w @ [d]\<rparr>))
          \<and> (dns env (length (lookups w)) d = None \<longrightarrow>
            domain_exists self env raw w = (Inr (d, True), w\<lparr>lookups := lookups w @ [d]\<rparr>))
          \<and> (int j \<le> retry_count self
            \<and> (\<forall>i<j. \<exists>e. dns env (length (lookups w) + i) d = Some e \<and> isinstance e Timeout)
            \<and> \<not> (\<exists>e. dns env (length (lookups w) + j) d = Some e \<and> isinstance e Timeout) \<longrightarrow>
            lookups (snd (domain_exists self env raw w)) = lookups w @ replicate (Suc j) d
            \<and> sleeps (snd (domain_exists self env raw w)) = sleeps w @ replicate j (1 / 2)
            \<and> fst (domain_exists self env raw w)
                = Inr (d, dns env (length (lookups w) + j) d = None))" .
  qed
  have none: "retry_count self < 0 \<longrightarrow> domain_exists self env raw w = (Inr (d, False), w)"
  proof
    assume "retry_count self < 0"
    with assms show "domain_exists self env raw w = (Inr (d, False), w)"
      by (rule domain_exists_no_attempt)
  qed
  have refused: "0 \<le> retry_count self \<and> timeout_error env (timeout self) = Some x \<longrightarrow>
      domain_exists self env raw w =
        (Inr (d, False), logger DEBUG (UnexpectedErrorChecking d x) w)"
  proof
    assume "0 \<le> retry_count self \<and> timeout_error env (timeout self) = Some x"
    then have "0 \<le> retry_count self" and "timeout_error env (timeout self) = Some x"
      by simp_all
    with assms show "domain_exists self env raw w =
        (Inr (d, False), logger DEBUG (UnexpectedErrorChecking d x) w)"
      by (rule domain_exists_refused)
  qed
  from accepted none refused show ?thesis by (intro conjI)
qed

lemma normalize_google: "normalize_domain ''WWW.Google.com'' = Inr ''google.com''"
  by code_simp

lemma normalize_google_plain: "normalize_domain ''google.com'' = Inr ''google.com''"
  by code_simp

lemma default_checker_fields:
  "timeout default_checker = Finite 5" "max_workers default_checker = 50"
  "retry_count default_checker = 2"
  by (simp_all add: default_checker_def DomainChecker_def)

lemma timeout_error_env_of:
  "timeout_error (env_of resolver) (Finite 5) = None"
  "timeout_error (env_of resolver) NaN = Some (Exn ValueError ''Invalid value NaN (not a number)'')"
  "timeout_error (env_of resolver) (Finite (- 1))
     = Some (Exn ValueError ''Timeout value out of range'')"
  "timeout_error (env_of resolver) (Finite 10000000000)
     = Some (Exn OverflowError ''timestamp too large to convert to C _PyTime_t'')"
  by (simp_all add: timeout_error_def env_of_def pytime_limit_def)

theorem domain_exists_retry_policy_witness:
  "domain_exists default_checker (env_of times_out) ''WWW.Google.com'' world0 =
     (Inr (''google.com'', False),
      world0\<lparr>lookups := [''google.com'', ''google.com'', ''google.com''],
        sleeps := [1 / 2, 1 / 2]\<rparr>)
   \<and> domain_exists default_checker (env_of not_found) ''WWW.Google.com'' world0 =
     (Inr (''google.com'', False), world0\<lparr>lookups := [''google.com'']\<rparr>)
   \<and> domain_exists default_checker (env_of resolves) ''WWW.Google.com'' world0 =
     (Inr (''google.com'', True), world0\<lparr>lookups := [''google.com'']\<rparr>)
   \<and> lookups (snd (domain_exists default_checker (env_of flaky) ''WWW.Google.com'' world0))
       = [''google.com'', ''google.com'']
   \<and> sleeps (snd (domain_exists default_checker (env_of flaky) ''WWW.Google.com'' world0))
       = [1 / 2]
   \<and> fst (domain_exists default_checker (env_of flaky) ''WWW.Google.com'' world0)
       = Inr (''google.com'', True)
   \<and> domain_exists (DomainChecker (Finite 5) 50 (- 1)) (env_of resolves) ''WWW.Google.com'' world0
       = (Inr (''google.com'', False), world0)
   \<and> domain_exists (DomainChecker NaN 50 2) (env_of resolves) ''WWW.Google.com'' world0
       = (Inr (''google.com'', False),
          logger DEBUG (UnexpectedErrorChecking ''google.com''
            (Exn ValueError ''Invalid value NaN (not a number)'')) world0)"
proof -
  have ok: "0 \<le> retry_count default_checker
      \<and> timeout_error (env_of r) (timeout default_checker) = None" for r
    by (simp add: default_checker_fields timeout_error_env_of)
  note policy = domain_exists_retry_policy [OF normalize_google, where self = default_checker]
  have "domain_exists default_checker (env_of times_out) ''WWW.Google.com'' world0 =
     (Inr (''google.com'', False),
      world0\<lparr>lookups := [''google.com'', ''google.com'', ''google.com''],
        sleeps := [1 / 2, 1 / 2]\<rparr>)"
    using policy [where env = "env_of times_out" and w = world0 and j = 0,
        THEN conjunct1, THEN mp, OF ok, THEN conjunct1]
    by (simp add: env_of_def times_out_def isinstance_def default_checker_fields world0_def
        eval_nat_numeral)
  moreover have "domain_exists default_checker (env_of not_found) ''WWW.Google.com'' world0 =
     (Inr (''google.com'', False), world0\<lparr>lookups := [''google.com'']\<rparr>)"
    using policy [where env = "env_of not_found" and w = world0 and j = 0,
        THEN conjunct1, THEN mp, OF ok,
        THEN conjunct2, THEN conjunct1]
    by (simp add: env_of_def not_found_def isinstance_def world0_def)
  moreover have "domain_exists default_checker (env_of resolves) ''WWW.Google.com'' world0 =
     (Inr (''google.com'', True), world0\<lparr>lookups := [''google.com'']\<rparr>)"
    using policy [where env = "env_of resolves" and w = world0 and j = 0,
        THEN conjunct1, THEN mp, OF ok,
        THEN conjunct2, THEN conjunct2, THEN conjunct1]
    by (simp add: env_of_def resolves_def world0_def)
  moreover have "lookups (snd (domain_exists default_checker (env_of flaky) ''WWW.Google.com'' world0))
       = [''google.com'', ''google.com'']
   \<and> sleeps (snd (domain_exists default_checker (env_of flaky) ''WWW.Google.com'' world0))
       = [1 / 2]
   \<and> fst (domain_exists default_checker (env_of flaky) ''WWW.Google.com'' world0)
       = Inr (''google.com'', True)"
    using policy [where env = "env_of flaky" and w = world0 and j = 1,
        THEN conjunct1, THEN mp, OF ok,
        THEN conjunct2, THEN conjunct2, THEN conjunct2]
    by (simp add: env_of_def flaky_def isinstance_def default_checker_fields world0_def)
  moreover have "domain_exists (DomainChecker (Finite 5) 50 (- 1)) (env_of resolves)
      ''WWW.Google.com'' world0 = (Inr (''google.com'', False), world0)"
    using domain_exists_retry_policy [OF normalize_google,
        where self = "DomainChecker (Finite 5) 50 (- 1)" and env = "env_of resolves"
          and w = world0, THEN conjunct2, THEN conjunct1]
    by (simp add: DomainChecker_def)
  moreover have "domain_exists (DomainChecker NaN 50 2) (env_of resolves) ''WWW.Google.com''
      world0 = (Inr (''google.com'', False),
          logger DEBUG (UnexpectedErrorChecking ''google.com''
            (Exn ValueError ''Invalid value NaN (not a number)'')) world0)"
    using domain_exists_retry_policy [OF normalize_google,
        where self = "DomainChecker NaN 50 2" and env = "env_of resolves" and w = world0
          and x = "Exn ValueError ''Invalid value NaN (not a number)''",
        THEN conjunct2, THEN conjunct2]
    by (simp add: DomainChecker_def timeout_error_env_of)
  ultimately show ?thesis by (intro conjI) simp_all
qed

text \<open>
  C2 as stated fails for configurations the program accepts. With \<^verbatim>\<open>-r -1\<close> the loop
  makes no attempt: a name the resolver would resolve is answered \<open>(domain, False)\<close>
  without a lookup. With a timeout that \<^verbatim>\<open>socket.setdefaulttimeout\<close> refuses (NaN, or ten
  thousand million seconds) the first attempt ends the call before the resolver is
  asked.
\<close>

theorem domain_exists_retry_policy_counterexample:
  "domain_exists (DomainChecker (Finite 5) 50 (- 1)) (env_of resolves) ''google.com'' world0
     = (Inr (''google.com'', False), world0)
   \<and> domain_exists (DomainChecker NaN 50 2) (env_of resolves) ''google.com'' world0
     = (Inr (''google.com'', False),
        logger DEBUG (UnexpectedErrorChecking ''google.com''
          (Exn ValueError ''Invalid value NaN (not a number)'')) world0)
   \<and> domain_exists (DomainChecker (Finite 10000000000) 50 2) (env_of resolves) ''google.com''
        world0
     = (Inr (''google.com'', False),
        logger DEBUG (UnexpectedErrorChecking ''google.com''
          (Exn OverflowError ''timestamp too large to convert to C _PyTime_t'')) world0)
   \<and> dns (env_of resolves) 0 ''google.com'' = None"
proof -
  have "domain_exists (DomainChecker (Finite 5) 50 (- 1)) (env_of resolves) ''google.com'' world0
     = (Inr (''google.com'', False), world0)"
    by (rule domain_exists_no_attempt [OF normalize_google_plain])
      (simp add: DomainChecker_def)
  moreover have "domain_exists (DomainChecker NaN 50 2) (env_of resolves) ''google.com'' world0
     = (Inr (''google.com'', False),
        logger DEBUG (UnexpectedErrorChecking ''google.com''
          (Exn ValueError ''Invalid value NaN (not a number)'')) world0)"
    by (rule domain_exists_refused [OF normalize_google_plain])
      (simp_all add: DomainChecker_def timeout_error_env_of)
  moreover have "domain_exists (DomainChecker (Finite 10000000000) 50 2) (env_of resolves)
        ''google.com'' world0
     = (Inr (''google.com'', False),
        logger DEBUG (UnexpectedErrorChecking ''google.com''
          (Exn OverflowError ''timestamp too large to convert to C _PyTime_t'')) world0)"
    by (rule domain_exists_refused [OF normalize_google_plain])
      (simp_all add: DomainChecker_def timeout_error_env_of)
  moreover have "dns (env_of resolves) 0 ''google.com'' = None"
    by (simp add: env_of_def resolves_def)
  ultimately show ?thesis by (intro conjI)
qed

text \<open>
  C3. \<^verbatim>\<open>domain_exists\<close> never raises: for every input string, configuration, resolver
  behaviour and state of the process it returns a pair. When the lookup that decides the
  call (the one after \<open>j \<le> retry_count\<close> timeouts) raises an exception \<open>e\<close> that is neither
  a \<^verbatim>\<open>gaierror\<close> nor a timeout, the pair is \<open>(domain, False)\<close> and the only other effect
  is one \<^verbatim>\<open>logger.debug\<close> call that names the domain and \<open>e\<close>. The exception that
  \<^verbatim>\<open>socket.setdefaulttimeout\<close> raises for a timeout it refuses (\<^verbatim>\<open>ValueError\<close> for NaN
  and negative values, \<^verbatim>\<open>OverflowError\<close> for an infinity and beyond the limits) is
  handled the same way, before any lookup.
\<close>

theorem domain_exists_never_raises:
  "(\<exists>name b w'. domain_exists self env raw w = (Inr (name, b), w'))
   \<and> (normalize_domain raw = Inr d \<and> timeout_error env (timeout self) = None
        \<and> int j \<le> retry_count self
        \<and> (\<forall>i<j. \<exists>e'. dns env (length (lookups w) + i) d = Some e' \<and> isinstance e' Timeout)
        \<and> dns env (length (lookups w) + j) d = Some e
        \<and> \<not> isinstance e Gaierror \<and> \<not> isinstance e Timeout \<longrightarrow>
      domain_exists self env raw w =
        (Inr (d, False),
         logger DEBUG (UnexpectedErrorChecking d e)
           (w\<lparr>lookups := lookups w @ replicate (Suc j) d,
              sleeps := sleeps w @ replicate j (1 / 2)\<rparr>)))
   \<and> (normalize_domain raw = Inr d \<and> timeout_error env (timeout self) = Some x
        \<and> 0 \<le> retry_count self \<longrightarrow>
      domain_exists self env raw w =
        (Inr (d, False), logger DEBUG (UnexpectedErrorChecking d x) w))"
proof (intro conjI impI)
  show "\<exists>name b w'. domain_exists self env raw w = (Inr (name, b), w')"
    using domain_exists_returns [of self env raw w] by blast
next
  assume h: "normalize_domain raw = Inr d \<and> timeout_error env (timeout self) = None
        \<and> int j \<le> retry_count self
        \<and> (\<forall>i<j. \<exists>e'. dns env (length (lookups w) + i) d = Some e' \<and> isinstance e' Timeout)
        \<and> dns env (length (lookups w) + j) d = Some e
        \<and> \<not> isinstance e Gaierror \<and> \<not> isinstance e Timeout"
  then have n: "normalize_domain raw = Inr d" and t: "timeout_error env (timeout self) = None"
    and j: "int j \<le> retry_count self"
    and to: "\<forall>i<j. \<exists>e'. dns env (length (lookups w) + i) d = Some e' \<and> isinstance e' Timeout"
    and e: "dns env (length (lookups w) + j) d = Some e"
    and ng: "\<not> isinstance e Gaierror" and nt: "\<not> isinstance e Timeout"
    by simp_all
  from retry_loop_decided(3) [OF t j to e ng nt]
  show "domain_exists self env raw w =
        (Inr (d, False),
         logger DEBUG (UnexpectedErrorChecking d e)
           (w\<lparr>lookups := lookups w @ replicate (Suc j) d,
              sleeps := sleeps w @ replicate j (1 / 2)\<rparr>))"
    by (simp only: domain_exists_accepted [OF n])
next
  assume h: "normalize_domain raw = Inr d \<and> timeout_error env (timeout self) = Some x
        \<and> 0 \<le> retry_count self"
  then have "normalize_domain raw = Inr d" and "0 \<le> retry_count self"
    and "timeout_error env (timeout self) = Some x"
    by simp_all
  then show "domain_exists self env raw w =
        (Inr (d, False), logger DEBUG (UnexpectedErrorChecking d x) w)"
    by (rule domain_exists_refused)
qed

theorem domain_exists_never_raises_witness:
  "(\<exists>name b w'. domain_exists default_checker (env_of breaks) ''WWW.Google.com'' world0
       = (Inr (name, b), w'))
   \<and> domain_exists default_checker (env_of breaks) ''WWW.Google.com'' world0 =
       (Inr (''google.com'', False),
        world0\<lparr>lookups := [''google.com''],
          log := [(DEBUG, UnexpectedErrorChecking ''google.com'' (Exn Exception ''unexpected''))]\<rparr>)
   \<and> domain_exists (DomainChecker (Finite (- 1)) 50 2) (env_of resolves) ''WWW.Google.com'' world0 =
       (Inr (''google.com'', False),
        world0\<lparr>log := [(DEBUG, UnexpectedErrorChecking ''google.com''
          (Exn ValueError ''Timeout value out of range''))]\<rparr>)
   \<and> domain_exists (DomainChecker (Finite 10000000000) 50 2) (env_of resolves)
        ''WWW.Google.com'' world0 =
       (Inr (''google.com'', False),
        world0\<lparr>log := [(DEBUG, UnexpectedErrorChecking ''google.com''
          (Exn OverflowError ''timestamp too large to convert to C _PyTime_t''))]\<rparr>)"
proof -
  note a = domain_exists_never_raises [where self = default_checker and env = "env_of breaks"
      and raw = "''WWW.Google.com''" and w = world0 and d = "''google.com''" and j = 0
      and e = "Exn Exception ''unexpected''"]
  note b = domain_exists_never_raises [where self = "DomainChecker (Finite (- 1)) 50 2"
      and env = "env_of resolves" and raw = "''WWW.Google.com''" and w = world0
      and d = "''google.com''" and x = "Exn ValueError ''Timeout value out of range''"]
  note c = domain_exists_never_raises [where self = "DomainChecker (Finite 10000000000) 50 2"
      and env = "env_of resolves" and raw = "''WWW.Google.com''" and w = world0
      and d = "''google.com''"
      and x = "Exn OverflowError ''timestamp too large to convert to C _PyTime_t''"]
  have "\<exists>name b w'. domain_exists default_checker (env_of breaks) ''WWW.Google.com'' world0
       = (Inr (name, b), w')"
    using a [THEN conjunct1] .
  moreover have "domain_exists default_checker (env_of breaks) ''WWW.Google.com'' world0 =
       (Inr (''google.com'', False),
        world0\<lparr>lookups := [''google.com''],
          log := [(DEBUG, UnexpectedErrorChecking ''google.com'' (Exn Exception ''unexpected''))]\<rparr>)"
  proof -
    have "normalize_domain ''WWW.Google.com'' = Inr ''google.com''
        \<and> timeout_error (env_of breaks) (timeout default_checker) = None
        \<and> int 0 \<le> retry_count default_checker
        \<and> (\<forall>i<0. \<exists>e'. dns (env_of breaks) (length (lookups world0) + i) ''google.com''
               = Some e' \<and> isinstance e' Timeout)
        \<and> dns (env_of breaks) (length (lookups world0) + 0) ''google.com''
            = Some (Exn Exception ''unexpected'')
        \<and> \<not> isinstance (Exn Exception ''unexpected'') Gaierror
        \<and> \<not> isinstance (Exn Exception ''unexpected'') Timeout"
      by (simp add: normalize_google default_checker_fields timeout_error_env_of
          isinstance_def) (simp add: env_of_def breaks_def)
    from a [THEN conjunct2, THEN conjunct1, THEN mp, OF this]
    show ?thesis by (simp add: world0_def logger_def)
  qed
  moreover have "domain_exists (DomainChecker (Finite (- 1)) 50 2) (env_of resolves)
      ''WWW.Google.com'' world0 =
       (Inr (''google.com'', False),
        world0\<lparr>log := [(DEBUG, UnexpectedErrorChecking ''google.com''
          (Exn ValueError ''Timeout value out of range''))]\<rparr>)"
  proof -
    have "normalize_domain ''WWW.Google.com'' = Inr ''google.com''
        \<and> timeout_error (env_of resolves) (timeout (DomainChecker (Finite (- 1)) 50 2))
            = Some (Exn ValueError ''Timeout value out of range'')
        \<and> 0 \<le> retry_count (DomainChecker (Finite (- 1)) 50 2)"
      by (simp add: normalize_google DomainChecker_def timeout_error_env_of)
    from b [THEN conjunct2, THEN conjunct2, THEN mp, OF this]
    show ?thesis by (simp add: world0_def logger_def)
  qed
  moreover have "domain_exists (DomainChecker (Finite 10000000000) 50 2) (env_of resolves)
        ''WWW.Google.com'' world0 =
       (Inr (''google.com'', False),
        world0\<lparr>log := [(DEBUG, UnexpectedErrorChecking ''google.com''
          (Exn OverflowError ''timestamp too large to convert to C _PyTime_t''))]\<rparr>)"
  proof -
    have "normalize_domain ''WWW.Google.com'' = Inr ''google.com''
        \<and> timeout_error (env_of resolves) (timeout (DomainChecker (Finite 10000000000) 50 2))
            = Some (Exn OverflowError ''timestamp too large to convert to C _PyTime_t'')
        \<and> 0 \<le> retry_count (DomainChecker (Finite 10000000000) 50 2)"
      by (simp add: normalize_google DomainChecker_def timeout_error_env_of)
    from c [THEN conjunct2, THEN conjunct2, THEN mp, OF this]
    show ?thesis by (simp add: world0_def logger_def)
  qed
  ultimately show ?thesis by (intro conjI)
qed

section \<open>Normalization\<close>

lemma returned_domain_unfold:
  "returned_domain raw =
     (if lower (strip raw) = [] \<or> CHR ''.'' \<notin> set (lower (strip raw))
         \<or> 253 < length (lower (strip raw))
      then lower (strip raw)
      else split_first CHR ''?'' (split_first CHR ''/'' (remove_prefixes (lower (strip raw)))))"
  by (simp add: returned_domain_def normalize_domain_def Let_def)

text \<open>
  C9 (amended). For every input string, configuration, resolver behaviour and state, the
  name in the pair \<^verbatim>\<open>domain_exists\<close> returns is: for an input that passes the format
  check of line 73 (not empty after trimming and lower-casing, a \<open>.\<close> in it, at most 253
  characters), the trimmed, lower-cased input with the prefixes and then the path and
  query removed; for an input that fails the check, the trimmed, lower-cased input as it
  is, prefixes and path included.
\<close>

theorem domain_exists_names_normalized:
  "\<exists>b w'. domain_exists self env raw w =
     (Inr (if lower (strip raw) = [] \<or> CHR ''.'' \<notin> set (lower (strip raw))
              \<or> 253 < length (lower (strip raw))
           then lower (strip raw)
           else split_first CHR ''?''
                  (split_first CHR ''/'' (remove_prefixes (lower (strip raw)))),
           b), w')"
  using domain_exists_returns [of self env raw w] by (simp only: returned_domain_unfold)

theorem domain_exists_names_normalized_witness:
  "(\<exists>b w'. domain_exists default_checker (env_of resolves) ''WWW.Google.com'' world0 =
      (Inr (''google.com'', b), w'))
   \<and> (\<exists>b w'. domain_exists default_checker (env_of resolves) ''HTTP://localhost/x'' world0 =
      (Inr (''http://localhost/x'', b), w'))"
proof -
  have a: "lower (strip ''WWW.Google.com'') = ''www.google.com''" by code_simp
  have b: "split_first CHR ''?'' (split_first CHR ''/'' (remove_prefixes ''www.google.com''))
      = ''google.com''" by code_simp
  have c: "lower (strip ''HTTP://localhost/x'') = ''http://localhost/x''" by code_simp
  have "\<exists>b w'. domain_exists default_checker (env_of resolves) ''WWW.Google.com'' world0 =
      (Inr (''google.com'', b), w')"
    using domain_exists_names_normalized
      [of default_checker "env_of resolves" "''WWW.Google.com''" world0]
    by (simp add: a b)
  moreover have "\<exists>b w'. domain_exists default_checker (env_of resolves) ''HTTP://localhost/x''
      world0 = (Inr (''http://localhost/x'', b), w')"
    using domain_exists_names_normalized
      [of default_checker "env_of resolves" "''HTTP://localhost/x''" world0]
    by (simp add: c)
  ultimately show ?thesis by (intro conjI)
qed

text \<open>
  C9 as stated fails: \<^verbatim>\<open>HTTP://localhost/x\<close> has no \<open>.\<close>, so the call returns before
  the prefix and the path are removed, and the name returned is not \<open>localhost\<close>.
\<close>

theorem domain_exists_names_normalized_counterexample:
  "fst (domain_exists default_checker (env_of resolves) ''HTTP://localhost/x'' world0)
     = Inr (''http://localhost/x'', False)
   \<and> split_first CHR ''?''
       (split_first CHR ''/'' (remove_prefixes (lower (strip ''HTTP://localhost/x''))))
     = ''localhost''"
  by code_simp

text \<open>
  C4 (amended). The three prefixes are tested once each, in the order \<^verbatim>\<open>http://\<close>,
  \<^verbatim>\<open>https://\<close>, \<^verbatim>\<open>www.\<close>, each against the string the earlier removals left, and
  every one that matches is removed. So a scheme and a \<^verbatim>\<open>www.\<close> are both removed, a
  prefix is never removed twice, a prefix uncovered by a later removal is not revisited,
  and at most 19 characters are taken off the front.
\<close>

theorem remove_prefixes_each_once:
  "remove_prefixes d =
     removeprefix ''www.'' (removeprefix ''https://'' (removeprefix ''http://'' d))
   \<and> remove_prefixes (''http://www.'' @ s) = s
   \<and> remove_prefixes (''https://www.'' @ s) = s
   \<and> remove_prefixes (''http://https://www.'' @ s) = s
   \<and> remove_prefixes (''www.www.'' @ s) = ''www.'' @ s
   \<and> remove_prefixes (''http://http://'' @ s) = ''http://'' @ s
   \<and> remove_prefixes (''www.http://'' @ s) = ''http://'' @ s
   \<and> (\<exists>k\<le>19. remove_prefixes d = drop k d)"
  using remove_prefixes_unfold [of d] remove_prefixes_examples [of s]
    remove_prefixes_suffix [of d]
  by (intro conjI)

theorem remove_prefixes_each_once_witness:
  "remove_prefixes ''http://www.google.com'' = ''google.com''
   \<and> remove_prefixes ''www.www.a.com'' = ''www.a.com''
   \<and> remove_prefixes ''www.http://a.com'' = ''http://a.com''"
proof -
  note g = remove_prefixes_each_once [of "''http://www.google.com''" "''google.com''"]
  note a = remove_prefixes_each_once [of "''www.www.a.com''" "''a.com''"]
  from g have "remove_prefixes (''http://www.'' @ ''google.com'') = ''google.com''"
    by (elim conjE)
  moreover from a have "remove_prefixes (''www.www.'' @ ''a.com'') = ''www.'' @ ''a.com''"
    by (elim conjE)
  moreover from a have "remove_prefixes (''www.http://'' @ ''a.com'') = ''http://'' @ ''a.com''"
    by (elim conjE)
  ultimately show ?thesis by simp
qed

text \<open>
  C4 as stated fails on its own example: from \<^verbatim>\<open>http://www.google.com\<close> both the scheme
  and the \<^verbatim>\<open>www.\<close> are removed.
\<close>

theorem remove_prefixes_counterexample:
  "normalize_domain ''http://www.google.com'' = Inr ''google.com''
   \<and> fst (domain_exists default_checker (env_of resolves) ''http://www.google.com'' world0)
       = Inr (''google.com'', True)"
  by code_simp

lemma format_check_on_strip:
  "(lower (strip raw) = [] \<or> CHR ''.'' \<notin> set (lower (strip raw))
      \<or> 253 < length (lower (strip raw)))
   \<longleftrightarrow> (strip raw = [] \<or> CHR ''.'' \<notin> set (strip raw) \<or> 253 < length (strip raw))"
proof -
  have "lower (strip raw) = [] \<longleftrightarrow> strip raw = []" by (simp add: lower_def)
  then show ?thesis by (simp only: dot_in_lower length_lower)
qed

text \<open>
  C5 (amended). The format check (empty, no \<open>.\<close>, longer than 253 characters) is applied
  to the trimmed input, before the prefixes and the path and query are removed, and is not
  applied again afterwards. An input that fails it is answered \<open>(name, False)\<close> with the
  trimmed, lower-cased input as the name and without any lookup or other effect, whatever
  its stripped form is; an input that passes it goes to the retry loop with its stripped
  form, whatever that is.
\<close>

theorem format_check_precedes_stripping:
  "((strip raw = [] \<or> CHR ''.'' \<notin> set (strip raw) \<or> 253 < length (strip raw)) \<longrightarrow>
      domain_exists self env raw w = (Inr (lower (strip raw), False), w))
   \<and> (strip raw \<noteq> [] \<and> CHR ''.'' \<in> set (strip raw) \<and> length (strip raw) \<le> 253 \<longrightarrow>
      domain_exists self env raw w =
        retry_loop self env
          (split_first CHR ''?'' (split_first CHR ''/'' (remove_prefixes (lower (strip raw)))))
          [0..retry_count self] w)"
proof (intro conjI impI)
  assume "strip raw = [] \<or> CHR ''.'' \<notin> set (strip raw) \<or> 253 < length (strip raw)"
  then have "lower (strip raw) = [] \<or> CHR ''.'' \<notin> set (lower (strip raw))
      \<or> 253 < length (lower (strip raw))"
    by (simp only: format_check_on_strip)
  then have "normalize_domain raw = Inl (lower (strip raw))"
    by (simp add: normalize_domain_def Let_def)
  then show "domain_exists self env raw w = (Inr (lower (strip raw), False), w)"
    by (rule domain_exists_rejected)
next
  assume "strip raw \<noteq> [] \<and> CHR ''.'' \<in> set (strip raw) \<and> length (strip raw) \<le> 253"
  then have "\<not> (strip raw = [] \<or> CHR ''.'' \<notin> set (strip raw) \<or> 253 < length (strip raw))"
    by auto
  then have "\<not> (lower (strip raw) = [] \<or> CHR ''.'' \<notin> set (lower (strip raw))
      \<or> 253 < length (lower (strip raw)))"
    using format_check_on_strip [of raw] by blast
  then have "normalize_domain raw = Inr
      (split_first CHR ''?'' (split_first CHR ''/'' (remove_prefixes (lower (strip raw)))))"
    by (simp add: normalize_domain_def Let_def)
  then show "domain_exists self env raw w =
        retry_loop self env
          (split_first CHR ''?'' (split_first CHR ''/'' (remove_prefixes (lower (strip raw)))))
          [0..retry_count self] w"
    by (rule domain_exists_accepted)
qed

lemma strip_long_raw: "strip long_raw = long_raw"
proof (rule strip_no_space)
  show "long_raw \<noteq> []" by (simp add: long_raw_def)
  show "\<not> isspace (hd long_raw)" by (simp add: long_raw_def isspace_def)
  show "\<not> isspace (last long_raw)" by (simp add: long_raw_def isspace_def)
qed

lemma lower_long_raw: "lower long_raw = long_raw"
proof (rule lower_fixed, rule ballI)
  fix c assume "c \<in> set long_raw"
  then have "c \<in> set ''http://a.com/x''" by (auto simp add: long_raw_def)
  then show "lower_char c = c" by (auto simp add: lower_char_def)
qed

theorem format_check_precedes_stripping_witness:
  "253 < length (strip long_raw)
   \<and> domain_exists default_checker (env_of resolves) long_raw world0
       = (Inr (long_raw, False), world0)
   \<and> domain_exists default_checker (env_of resolves) ''www.'' world0
       = retry_loop default_checker (env_of resolves) '''' [0..retry_count default_checker] world0"
proof -
  have a: "253 < length (strip long_raw)" by (simp only: strip_long_raw) (simp add: long_raw_def)
  have b: "strip ''www.'' = ''www.''" "lower ''www.'' = ''www.''"
    "split_first CHR ''?'' (split_first CHR ''/'' (remove_prefixes ''www.'')) = ''''"
    by code_simp+
  have "domain_exists default_checker (env_of resolves) long_raw world0
       = (Inr (long_raw, False), world0)"
    using format_check_precedes_stripping
      [of long_raw default_checker "env_of resolves" world0, THEN conjunct1] a
    by (simp add: strip_long_raw lower_long_raw)
  moreover have "domain_exists default_checker (env_of resolves) ''www.'' world0
       = retry_loop default_checker (env_of resolves) '''' [0..retry_count default_checker] world0"
    using format_check_precedes_stripping
      [of "''www.''" default_checker "env_of resolves" world0, THEN conjunct2]
    by (simp add: b)
  ultimately show ?thesis using a by (intro conjI)
qed

text \<open>
  C5 as stated fails: \<open>long_raw\<close> has 263 characters, its stripped form \<open>a.com\<close> has five
  and a \<open>.\<close>, and it is rejected without a lookup although the resolver would resolve it.
\<close>

theorem format_check_counterexample:
  "length long_raw = 263
   \<and> split_first CHR ''?'' (split_first CHR ''/'' (remove_prefixes (lower (strip long_raw))))
       = ''a.com''
   \<and> domain_exists default_checker (env_of resolves) long_raw world0
       = (Inr (long_raw, False), world0)
   \<and> fst (domain_exists default_checker (env_of resolves) ''http://a.com/x'' world0)
       = Inr (''a.com'', True)"
proof -
  have "length long_raw = 263" by (simp add: long_raw_def)
  moreover have "split_first CHR ''?'' (split_first CHR ''/'' (remove_prefixes long_raw))
       = ''a.com''"
    by (simp add: long_raw_def remove_prefixes_def removeprefix_def startswith_def
        split_first_def)
  moreover have "253 < length (strip long_raw)" by (simp only: strip_long_raw) (simp add: long_raw_def)
  then have "normalize_domain long_raw = Inl long_raw"
    by (simp add: normalize_domain_def Let_def strip_long_raw lower_long_raw)
  then have "domain_exists default_checker (env_of resolves) long_raw world0
       = (Inr (long_raw, False), world0)"
    by (rule domain_exists_rejected)
  moreover have "fst (domain_exists default_checker (env_of resolves) ''http://a.com/x'' world0)
       = Inr (''a.com'', True)"
    by code_simp
  ultimately show ?thesis by (simp add: strip_long_raw lower_long_raw)
qed

text \<open>
  C6 (amended). Normalizing a second time changes nothing when the first result is clean:
  if an input passes the format check and its normalized form \<open>d\<close> contains a \<open>.\<close>, has no
  whitespace at either end and does not start with \<^verbatim>\<open>http://\<close>, \<^verbatim>\<open>https://\<close> or
  \<^verbatim>\<open>www.\<close>, then normalizing \<open>d\<close> gives \<open>d\<close>.
\<close>

theorem normalize_domain_idempotent_when_clean:
  assumes "normalize_domain raw = Inr d"
    and "CHR ''.'' \<in> set d" and "strip d = d"
    and "\<not> startswith d ''http://''" and "\<not> startswith d ''https://''"
    and "\<not> startswith d ''www.''"
  shows "normalize_domain d = Inr d"
proof -
  note parts = normalized_parts [OF assms(1)]
  from parts(1) assms(3,2) parts(2,3,4) assms(4,5,6)
  show ?thesis by (rule normalize_domain_fixed)
qed

theorem normalize_domain_idempotent_when_clean_witness:
  "normalize_domain ''  HTTP://WWW.Google.com/search?q=1 '' = Inr ''google.com''
   \<and> normalize_domain ''google.com'' = Inr ''google.com''"
proof -
  have n: "normalize_domain ''  HTTP://WWW.Google.com/search?q=1 '' = Inr ''google.com''"
    by code_simp
  have d: "CHR ''.'' \<in> set ''google.com''" by simp
  have s: "strip ''google.com'' = ''google.com''" by code_simp
  have p: "\<not> startswith ''google.com'' ''http://''" "\<not> startswith ''google.com'' ''https://''"
    "\<not> startswith ''google.com'' ''www.''"
    by (simp_all add: startswith_def)
  from normalize_domain_idempotent_when_clean [OF n d s p] n show ?thesis by (intro conjI)
qed

text \<open>
  C6 as stated fails. Each prefix is removed once, so a second pass removes what the
  first one uncovered: \<^verbatim>\<open>www.www.a.com\<close> gives \<^verbatim>\<open>www.a.com\<close>, which gives
  \<^verbatim>\<open>a.com\<close>. Removing a prefix or a path can also uncover whitespace, or leave a name
  that the format check then rejects.
\<close>

theorem normalize_domain_idempotent_counterexample:
  "normalize_domain ''www.www.a.com'' = Inr ''www.a.com''
   \<and> normalize_domain ''www.a.com'' = Inr ''a.com''
   \<and> normalize_domain ''www. a.com'' = Inr '' a.com''
   \<and> normalize_domain '' a.com'' = Inr ''a.com''
   \<and> normalize_domain ''www./x.y'' = Inr ''''
   \<and> normalize_domain '''' = Inl ''''"
  by code_simp

section \<open>Loading the domains\<close>

lemma load_scenario_lines:
  "load_lines n scenario_lines [] w =
     ([''google.com'', ''WWW.Google.com'', ''nonexistent-domain-abc123xyz.invalid''], w)"
proof -
  have s: "strip ''google.com'' = ''google.com''" "strip ''WWW.Google.com'' = ''WWW.Google.com''"
    "strip '''' = ''''" "strip ''# comment'' = ''# comment''"
    "strip ''nonexistent-domain-abc123xyz.invalid'' = ''nonexistent-domain-abc123xyz.invalid''"
    by code_simp+
  show ?thesis
    by (simp add: scenario_lines_def s startswith_def)
qed

lemma dict_fromkeys_scenario:
  "dict_fromkeys [''google.com'', ''WWW.Google.com'', ''nonexistent-domain-abc123xyz.invalid'']
     = [''google.com'', ''WWW.Google.com'', ''nonexistent-domain-abc123xyz.invalid'']"
  by (simp add: dict_fromkeys_def)

text \<open>
  C7 (amended). From the input lines \<^verbatim>\<open>google.com\<close>, \<^verbatim>\<open>WWW.Google.com\<close>, an empty
  line, \<^verbatim>\<open># comment\<close> and \<^verbatim>\<open>nonexistent-domain-abc123xyz.invalid\<close> the loader
  returns three names: \<^verbatim>\<open>google.com\<close>, \<^verbatim>\<open>WWW.Google.com\<close> and
  \<^verbatim>\<open>nonexistent-domain-abc123xyz.invalid\<close>, and logs nothing. It compares the
  trimmed lines as they are, so \<^verbatim>\<open>WWW.Google.com\<close> is no duplicate of \<^verbatim>\<open>google.com\<close>.
\<close>

theorem load_domains_from_file_scenario:
  assumes "files w p = Some scenario_lines" and "read_fault env p = None"
  shows "load_domains_from_file self env p w =
    (Inr [''google.com'', ''WWW.Google.com'', ''nonexistent-domain-abc123xyz.invalid''], w)"
  using assms
  by (simp add: load_domains_from_file_def load_scenario_lines dict_fromkeys_scenario)

theorem load_domains_from_file_scenario_witness:
  "load_domains_from_file default_checker (env_of resolves) ''domains.txt'' scenario_world =
    (Inr [''google.com'', ''WWW.Google.com'', ''nonexistent-domain-abc123xyz.invalid''],
     scenario_world)"
proof (rule load_domains_from_file_scenario)
  show "files scenario_world ''domains.txt'' = Some scenario_lines"
    by (simp add: scenario_world_def)
  show "read_fault (env_of resolves) ''domains.txt'' = None"
    by (simp add: env_of_def)
qed

text \<open>
  C7 as stated fails: the loader's result is not the two names of the claim, and the two
  names it keeps apart are reported under one name by \<^verbatim>\<open>domain_exists\<close>.
\<close>

theorem load_domains_from_file_counterexample:
  "fst (load_domains_from_file default_checker (env_of resolves) ''domains.txt'' scenario_world)
     \<noteq> Inr [''google.com'', ''nonexistent-domain-abc123xyz.invalid'']
   \<and> fst (load_domains_from_file default_checker (env_of resolves) ''domains.txt'' scenario_world)
     = Inr [''google.com'', ''WWW.Google.com'', ''nonexistent-domain-abc123xyz.invalid'']
   \<and> returned_domain ''WWW.Google.com'' = returned_domain ''google.com''"
proof -
  have "files scenario_world ''domains.txt'' = Some scenario_lines"
    by (simp add: scenario_world_def)
  moreover have "read_fault (env_of resolves) ''domains.txt'' = None"
    by (simp add: env_of_def)
  ultimately have "fst (load_domains_from_file default_checker (env_of resolves) ''domains.txt''
      scenario_world)
    = Inr [''google.com'', ''WWW.Google.com'', ''nonexistent-domain-abc123xyz.invalid'']"
    by (simp add: load_domains_from_file_def load_scenario_lines dict_fromkeys_scenario)
  moreover have "returned_domain ''WWW.Google.com'' = returned_domain ''google.com''"
    by code_simp
  ultimately show ?thesis by simp
qed

section \<open>The concurrent check\<close>

text \<open>\<^verbatim>\<open>as_completed\<close> hands out the futures it was given, each once.\<close>

lemma mset_as_completed: "mset (as_completed sched k fs) = mset fs"
proof (induction sched k fs rule: as_completed.induct)
  case (1 sched k)
  show ?case by simp
next
  case (2 sched k f fs)
  let ?xs = "f # fs"
  let ?i = "sched k mod length ?xs"
  have i: "?i < length ?xs" by simp
  have "mset ?xs = mset (take ?i ?xs @ ?xs ! ?i # drop (Suc ?i) ?xs)"
    using id_take_nth_drop [OF i] by simp
  also have "\<dots> = add_mset (?xs ! ?i) (mset (take ?i ?xs @ drop (Suc ?i) ?xs))"
    by simp
  also have "\<dots> = mset (as_completed sched k ?xs)"
    using "2.IH" by simp
  finally show ?case by simp
qed

lemma domain_exists_frame:
  assumes "domain_exists self env raw w = (r, w')"
  shows "fs_calls w' = fs_calls w \<and> files w' = files w \<and> progress w' = progress w
    \<and> printed w' = printed w"
proof (cases "normalize_domain raw")
  case (Inl d)
  with assms show ?thesis by (auto simp add: domain_exists_def)
next
  case (Inr d)
  with assms have "retry_loop self env d [0..retry_count self] w = (r, w')"
    by (simp add: domain_exists_def)
  then show ?thesis by (rule retry_loop_frame)
qed

text \<open>
  The collecting loop takes the verdict of every future, as the call of
  \<^verbatim>\<open>domain_exists\<close> returned it, keeps the names of the true ones and advances the
  progress bar once per verdict.
\<close>

lemma collect_results_verdicts:
  "\<exists>w'.
     collect_results self env futures existing w
       = (Inr (existing @ map fst (filter snd (verdicts self env futures w))), w')
     \<and> progress w' = progress w + length futures
     \<and> fs_calls w' = fs_calls w \<and> files w' = files w \<and> printed w' = printed w"
proof (induction futures arbitrary: existing w)
  case Nil
  show ?case by simp
next
  case (Cons future futures)
  obtain b w1 where de: "domain_exists self env future w = (Inr (returned_domain future, b), w1)"
    using domain_exists_returns [of self env future w] by blast
  note fr = domain_exists_frame [OF de]
  let ?existing = "if b then existing @ [returned_domain future] else existing"
  let ?w1 = "w1\<lparr>progress := progress w1 + 1\<rparr>"
  from Cons.IH [of ?existing ?w1]
  obtain w' where v:
      "collect_results self env futures ?existing ?w1
         = (Inr (?existing @ map fst (filter snd (verdicts self env futures ?w1))), w')"
      "progress w' = progress ?w1 + length futures"
      "fs_calls w' = fs_calls ?w1" "files w' = files ?w1" "printed w' = printed ?w1"
    by blast
  have "collect_results self env (future # futures) existing w
      = (Inr (existing @ map fst (filter snd (verdicts self env (future # futures) w))), w')"
    using de v(1) by simp
  moreover have "progress w' = progress w + length (future # futures)"
    using v(2) fr by simp
  moreover have "fs_calls w' = fs_calls w \<and> files w' = files w \<and> printed w' = printed w"
    using v(3,4,5) fr by simp
  ultimately show ?case by blast
qed

text \<open>There is a verdict for every future, under the name reported for it.\<close>

lemma verdicts_names: "map fst (verdicts self env futures w) = map returned_domain futures"
proof (induction futures arbitrary: w)
  case Nil
  show ?case by simp
next
  case (Cons future futures)
  obtain b w1 where de: "domain_exists self env future w = (Inr (returned_domain future, b), w1)"
    using domain_exists_returns [of self env future w] by blast
  show ?case by (simp add: de Cons.IH)
qed

lemma length_verdicts: "length (verdicts self env futures w) = length futures"
  using verdicts_names [of self env futures w, THEN arg_cong, of length] by simp

text \<open>Every verdict is the pair a call of \<^verbatim>\<open>domain_exists\<close> for its future returned.\<close>

lemma verdicts_nth:
  assumes "i < length futures"
  shows "\<exists>wi wi'. domain_exists self env (futures ! i) wi
    = (Inr (verdicts self env futures w ! i), wi')"
  using assms
proof (induction futures arbitrary: w i)
  case Nil
  then show ?case by simp
next
  case (Cons future futures)
  obtain b w1 where de: "domain_exists self env future w = (Inr (returned_domain future, b), w1)"
    using domain_exists_returns [of self env future w] by blast
  show ?case
  proof (cases i)
    case 0
    with de have "domain_exists self env ((future # futures) ! i) w
        = (Inr (verdicts self env (future # futures) w ! i), w1)"
      by simp
    then show ?thesis by blast
  next
    case (Suc k)
    with Cons.prems have "k < length futures" by simp
    from Cons.IH [OF this, of "w1\<lparr>progress := progress w1 + 1\<rparr>"]
    show ?thesis by (simp add: Suc de)
  qed
qed

text \<open>
  C1 (amended). With a pool of at least one worker, for every list of domain strings,
  every resolver behaviour (errors included) and every order of completion: the futures
  whose results \<^verbatim>\<open>check_domains_concurrent\<close> takes are the submitted domains, each once
  (none dropped, none twice); it takes exactly \<open>len(domains)\<close> verdicts, the one of each
  future being the pair the call of \<^verbatim>\<open>domain_exists\<close> for that future returned, named by
  the name \<^verbatim>\<open>domain_exists\<close> reports for it; it returns normally, with one progress update
  per verdict, and the list it returns holds the names of the verdicts that are true, in
  the order of completion. So every name in the list is the reported name of some input;
  the list is a subset of the input set when every input is its own reported name.
\<close>

theorem check_domains_concurrent_verdicts:
  assumes "0 < max_workers self"
  shows "let futures = as_completed (completes env) 0 domains;
             vs = verdicts self env futures w
         in mset futures = mset domains
          \<and> length vs = length domains
          \<and> map fst vs = map returned_domain futures
          \<and> (\<forall>i<length domains. \<exists>wi wi'.
                domain_exists self env (futures ! i) wi = (Inr (vs ! i), wi'))
          \<and> (\<exists>w'. check_domains_concurrent self env domains w
                      = (Inr (map fst (filter snd vs)), w')
                \<and> progress w' = progress w + length domains)
          \<and> set (map fst (filter snd vs)) \<subseteq> returned_domain ` set domains
          \<and> ((\<forall>d\<in>set domains. returned_domain d = d) \<longrightarrow>
                set (map fst (filter snd vs)) \<subseteq> set domains)"
proof -
  define futures where "futures = as_completed (completes env) 0 domains"
  define vs where "vs = verdicts self env futures w"
  have perm: "mset futures = mset domains"
    unfolding futures_def by (rule mset_as_completed)
  have len: "length futures = length domains"
    using perm by (rule mset_eq_length)
  have count: "length vs = length domains"
    unfolding vs_def by (simp only: length_verdicts len)
  have names: "map fst vs = map returned_domain futures"
    unfolding vs_def by (rule verdicts_names)
  have each: "\<forall>i<length domains. \<exists>wi wi'.
      domain_exists self env (futures ! i) wi = (Inr (vs ! i), wi')"
    unfolding vs_def using verdicts_nth [of _ futures self env w] len by simp
  from collect_results_verdicts [of self env futures "[]" w]
  obtain w' where v:
      "collect_results self env futures [] w = (Inr (map fst (filter snd vs)), w')"
      "progress w' = progress w + length futures"
    unfolding vs_def by auto
  have run: "\<exists>w'. check_domains_concurrent self env domains w
        = (Inr (map fst (filter snd vs)), w')
      \<and> progress w' = progress w + length domains"
    using assms v len by (auto simp add: check_domains_concurrent_def futures_def)
  have sub: "set (map fst (filter snd vs)) \<subseteq> returned_domain ` set domains"
  proof -
    have "set (map fst (filter snd vs)) \<subseteq> set (map fst vs)" by auto
    also have "\<dots> = returned_domain ` set_mset (mset futures)"
      by (simp only: names set_map set_mset_mset)
    also have "\<dots> = returned_domain ` set domains"
      by (simp only: perm set_mset_mset)
    finally show ?thesis .
  qed
  have fixed: "(\<forall>d\<in>set domains. returned_domain d = d) \<longrightarrow>
      set (map fst (filter snd vs)) \<subseteq> set domains"
  proof
    assume "\<forall>d\<in>set domains. returned_domain d = d"
    then have "returned_domain ` set domains = set domains" by force
    with sub show "set (map fst (filter snd vs)) \<subseteq> set domains" by simp
  qed
  from perm count names each run sub fixed
  show ?thesis
    unfolding Let_def futures_def [symmetric] vs_def [symmetric] by (intro conjI)
qed

lemma scenario_verdicts:
  "as_completed (completes (env_of only_google)) 0
     [''google.com'', ''WWW.Google.com'', ''nonexistent-domain-abc123xyz.invalid'']
     = [''google.com'', ''WWW.Google.com'', ''nonexistent-domain-abc123xyz.invalid'']"
  "verdicts default_checker (env_of only_google)
     [''google.com'', ''WWW.Google.com'', ''nonexistent-domain-abc123xyz.invalid''] world0
     = [(''google.com'', True), (''google.com'', True),
        (''nonexistent-domain-abc123xyz.invalid'', False)]"
  by code_simp+

theorem check_domains_concurrent_verdicts_witness:
  "0 < max_workers default_checker
   \<and> verdicts default_checker (env_of only_google)
       (as_completed (completes (env_of only_google)) 0
          [''google.com'', ''WWW.Google.com'', ''nonexistent-domain-abc123xyz.invalid''])
       world0
     = [(''google.com'', True), (''google.com'', True),
        (''nonexistent-domain-abc123xyz.invalid'', False)]
   \<and> fst (check_domains_concurrent default_checker (env_of only_google)
          [''google.com'', ''WWW.Google.com'', ''nonexistent-domain-abc123xyz.invalid''] world0)
     = Inr [''google.com'', ''google.com'']
   \<and> progress (snd (check_domains_concurrent default_checker (env_of only_google)
          [''google.com'', ''WWW.Google.com'', ''nonexistent-domain-abc123xyz.invalid''] world0))
     = 3"
proof -
  let ?names = "[''google.com'', ''WWW.Google.com'', ''nonexistent-domain-abc123xyz.invalid'']"
  have mw: "0 < max_workers default_checker" by (simp add: default_checker_fields)
  note run = check_domains_concurrent_verdicts
    [OF mw, where env = "env_of only_google" and domains = ?names and w = world0,
      unfolded Let_def scenario_verdicts,
      THEN conjunct2, THEN conjunct2, THEN conjunct2, THEN conjunct2, THEN conjunct1]
  from run obtain w' where
      "check_domains_concurrent default_checker (env_of only_google) ?names world0
        = (Inr (map fst (filter snd [(''google.com'', True), (''google.com'', True),
             (''nonexistent-domain-abc123xyz.invalid'', False)])), w')"
      "progress w' = progress world0 + length ?names"
    by blast
  then have "fst (check_domains_concurrent default_checker (env_of only_google) ?names world0)
      = Inr [''google.com'', ''google.com'']
    \<and> progress (snd (check_domains_concurrent default_checker (env_of only_google) ?names
        world0)) = 3"
    by (simp add: world0_def)
  with mw show ?thesis by (simp only: scenario_verdicts simp_thms)
qed

text \<open>
  C1 as stated fails in its last part: for the input \<^verbatim>\<open>WWW.Google.com\<close> the list returned
  holds \<^verbatim>\<open>google.com\<close>, which is no element of the input.
\<close>

theorem check_domains_concurrent_counterexample:
  "fst (check_domains_concurrent default_checker (env_of resolves) [''WWW.Google.com''] world0)
     = Inr [''google.com'']
   \<and> ''google.com'' \<notin> set [''WWW.Google.com'']"
  by code_simp

section \<open>Validation of the configuration\<close>

lemma domain_exists_negative_retries:
  assumes "retry_count self < 0"
  shows "domain_exists self env raw w = (Inr (returned_domain raw, False), w)"
proof (cases "normalize_domain raw")
  case (Inl d)
  then show ?thesis by (simp add: domain_exists_def returned_domain_def)
next
  case (Inr d)
  have "[0..retry_count self] = []" using assms by simp
  with Inr show ?thesis by (simp add: domain_exists_def returned_domain_def)
qed

lemma collect_results_negative_retries:
  assumes "retry_count self < 0"
  shows "collect_results self env futures existing w
    = (Inr existing, w\<lparr>progress := progress w + length futures\<rparr>)"
proof (induction futures arbitrary: w)
  case Nil
  show ?case by simp
next
  case (Cons future futures)
  show ?case
    by (simp add: domain_exists_negative_retries [OF assms] Cons.IH)
qed

lemma check_domains_concurrent_negative_retries:
  assumes "0 < max_workers self" and "retry_count self < 0"
  shows "check_domains_concurrent self env domains w
    = (Inr [], w\<lparr>progress := progress w + length domains\<rparr>)"
proof -
  have "length (as_completed (completes env) 0 domains) = length domains"
    using mset_as_completed [of "completes env" 0 domains] by (rule mset_eq_length)
  then show ?thesis
    using assms(1)
    by (simp add: check_domains_concurrent_def collect_results_negative_retries [OF assms(2)])
qed

text \<open>
  A call that makes no attempt (\<open>retry_count < 0\<close>), or whose timeout
  \<^verbatim>\<open>socket.setdefaulttimeout\<close> refuses, answers false without asking the resolver.
\<close>

lemma domain_exists_no_lookup:
  assumes "retry_count self < 0 \<or> timeout_error env (timeout self) \<noteq> None"
  shows "\<exists>w'. domain_exists self env raw w = (Inr (returned_domain raw, False), w')
    \<and> lookups w' = lookups w \<and> progress w' = progress w \<and> fs_calls w' = fs_calls w
    \<and> files w' = files w \<and> printed w' = printed w"
proof (cases "normalize_domain raw")
  case (Inl d)
  then show ?thesis by (simp add: domain_exists_def returned_domain_def)
next
  case (Inr d)
  then have name: "returned_domain raw = d" by (simp add: returned_domain_def)
  show ?thesis
  proof (cases "retry_count self < 0")
    case True
    from domain_exists_no_attempt [OF Inr True] show ?thesis by (simp add: name)
  next
    case False
    with assms obtain e where "timeout_error env (timeout self) = Some e" by auto
    from domain_exists_refused [OF Inr _ this, of w] False
    show ?thesis by (simp add: name logger_def)
  qed
qed

lemma collect_results_no_lookup:
  assumes "retry_count self < 0 \<or> timeout_error env (timeout self) \<noteq> None"
  shows "\<exists>w'. collect_results self env futures existing w = (Inr existing, w')
    \<and> progress w' = progress w + length futures \<and> lookups w' = lookups w
    \<and> fs_calls w' = fs_calls w \<and> files w' = files w \<and> printed w' = printed w"
proof (induction futures arbitrary: w)
  case Nil
  show ?case by simp
next
  case (Cons future futures)
  from domain_exists_no_lookup [OF assms, of future w]
  obtain w1 where de: "domain_exists self env future w = (Inr (returned_domain future, False), w1)"
    and fr: "lookups w1 = lookups w" "progress w1 = progress w" "fs_calls w1 = fs_calls w"
      "files w1 = files w" "printed w1 = printed w"
    by blast
  from Cons.IH [of "w1\<lparr>progress := progress w1 + 1\<rparr>"]
  obtain w' where
      "collect_results self env futures existing (w1\<lparr>progress := progress w1 + 1\<rparr>)
        = (Inr existing, w')"
      "progress w' = progress (w1\<lparr>progress := progress w1 + 1\<rparr>) + length futures"
      "lookups w' = lookups (w1\<lparr>progress := progress w1 + 1\<rparr>)"
      "fs_calls w' = fs_calls (w1\<lparr>progress := progress w1 + 1\<rparr>)"
      "files w' = files (w1\<lparr>progress := progress w1 + 1\<rparr>)"
      "printed w' = printed (w1\<lparr>progress := progress w1 + 1\<rparr>)"
    by blast
  with de fr show ?case by simp
qed

lemma filter_existing_domains_no_lookup:
  assumes "load_domains_from_file self env inp (logger INFO (LoadingDomainsFrom inp) w)
      = (Inr domains, w1)"
    and "domains \<noteq> []" and "0 < max_workers self"
    and "retry_count self < 0 \<or> timeout_error env (timeout self) \<noteq> None"
  shows "\<exists>w'. filter_existing_domains self env inp out w = (Returned, w')
    \<and> progress w' = progress w1 + length domains \<and> lookups w' = lookups w1
    \<and> fs_calls w' = fs_calls w1 \<and> files w' = files w1"
proof -
  let ?w2 = "print (LoadedDomains (length domains)) w1"
  let ?futures = "as_completed (completes env) 0 domains"
  have len: "length ?futures = length domains"
    using mset_as_completed [of "completes env" 0 domains] by (rule mset_eq_length)
  from collect_results_no_lookup [OF assms(4), where futures = ?futures and existing = "[]"
      and w = ?w2]
  obtain w3 where c: "collect_results self env ?futures [] ?w2 = (Inr [], w3)"
    and fr: "progress w3 = progress ?w2 + length ?futures" "lookups w3 = lookups ?w2"
      "fs_calls w3 = fs_calls ?w2" "files w3 = files ?w2"
    by blast
  have "check_domains_concurrent self env domains ?w2 = (Inr [], w3)"
    using assms(3) c by (simp add: check_domains_concurrent_def)
  then have "filter_existing_domains self env inp out w
      = (Returned, print (NoExistingDomainsFound (length domains)) w3)"
    using assms(2) by (simp add: filter_existing_domains_def assms(1))
  with fr len show ?thesis by (simp add: print_def)
qed

text \<open>
  C8 (amended). Before any resolution work begins \<^verbatim>\<open>main\<close> tests whether the timeout is
  \<open>\<le> 0\<close> and whether the number of workers lies outside \<open>[1, 200]\<close>: for every
  configuration for which one of these tests holds the process exits with status 1 and
  has done nothing but print one message. Nothing else of the configuration is
  validated. The retry count is not: with a negative retry count and valid other
  arguments the run goes on, the names are loaded, the engine takes a verdict for each
  of them (every verdict false, without a lookup) and the process exits with status 0.
  Nor is a timeout that is not \<open>\<le> 0\<close> but that \<^verbatim>\<open>socket.setdefaulttimeout\<close> refuses: NaN
  (which is not positive, but not \<open>\<le> 0\<close> either), an infinity and a value beyond the limit
  pass the test, and the run goes on in the same way.
\<close>

theorem main_validates_timeout_and_workers:
  "((float_le_zero (timeout_arg a) \<or> workers a \<le> 0 \<or> 200 < workers a) \<longrightarrow>
      (\<exists>m. m \<in> set [InputFileDoesNotExist (input_file a), TimeoutMustBePositive,
                     WorkersMustBeBetween1And200]
           \<and> main env a w = (1, print m w)))
   \<and> (files w (input_file a) \<noteq> None \<and> \<not> float_le_zero (timeout_arg a)
        \<and> 0 < workers a \<and> workers a \<le> 200 \<and> retries a < 0
        \<and> load_domains_from_file (DomainChecker (timeout_arg a) (workers a) (retries a)) env
             (input_file a) (logger INFO (LoadingDomainsFrom (input_file a)) w)
            = (Inr domains, w1)
        \<and> domains \<noteq> [] \<longrightarrow>
      main env a w =
        (0, print (NoExistingDomainsFound (length domains))
              ((print (LoadedDomains (length domains)) w1)
                 \<lparr>progress := progress w1 + length domains\<rparr>)))
   \<and> \<not> float_le_zero NaN \<and> timeout_error env NaN \<noteq> None
   \<and> (files w (input_file a) \<noteq> None \<and> \<not> float_le_zero (timeout_arg a)
        \<and> timeout_error env (timeout_arg a) \<noteq> None
        \<and> 0 < workers a \<and> workers a \<le> 200
        \<and> load_domains_from_file (DomainChecker (timeout_arg a) (workers a) (retries a)) env
             (input_file a) (logger INFO (LoadingDomainsFrom (input_file a)) w)
            = (Inr domains, w1)
        \<and> domains \<noteq> [] \<longrightarrow>
      fst (main env a w) = 0
      \<and> progress (snd (main env a w)) = progress w1 + length domains
      \<and> lookups (snd (main env a w)) = lookups w1
      \<and> fs_calls (snd (main env a w)) = fs_calls w1)"
proof -
  let ?self = "DomainChecker (timeout_arg a) (workers a) (retries a)"
  have rejected: "(float_le_zero (timeout_arg a) \<or> workers a \<le> 0 \<or> 200 < workers a) \<longrightarrow>
      (\<exists>m. m \<in> set [InputFileDoesNotExist (input_file a), TimeoutMustBePositive,
                     WorkersMustBeBetween1And200]
           \<and> main env a w = (1, print m w))"
  proof
    assume bad: "float_le_zero (timeout_arg a) \<or> workers a \<le> 0 \<or> 200 < workers a"
    show "\<exists>m. m \<in> set [InputFileDoesNotExist (input_file a), TimeoutMustBePositive,
                     WorkersMustBeBetween1And200]
           \<and> main env a w = (1, print m w)"
    proof (cases "files w (input_file a) = None")
      case True
      then have "main env a w = (1, print (InputFileDoesNotExist (input_file a)) w)"
        by (simp add: main_def)
      then show ?thesis by auto
    next
      case exists: False
      show ?thesis
      proof (cases "float_le_zero (timeout_arg a)")
        case True
        with exists have "main env a w = (1, print TimeoutMustBePositive w)"
          by (auto simp add: main_def)
        then show ?thesis by auto
      next
        case False
        with bad exists have "main env a w = (1, print WorkersMustBeBetween1And200 w)"
          by (auto simp add: main_def)
        then show ?thesis by auto
      qed
    qed
  qed
  have negative: "files w (input_file a) \<noteq> None \<and> \<not> float_le_zero (timeout_arg a)
        \<and> 0 < workers a \<and> workers a \<le> 200 \<and> retries a < 0
        \<and> load_domains_from_file ?self env
             (input_file a) (logger INFO (LoadingDomainsFrom (input_file a)) w)
            = (Inr domains, w1)
        \<and> domains \<noteq> [] \<longrightarrow>
      main env a w =
        (0, print (NoExistingDomainsFound (length domains))
              ((print (LoadedDomains (length domains)) w1)
                 \<lparr>progress := progress w1 + length domains\<rparr>))"
  proof
    assume h: "files w (input_file a) \<noteq> None \<and> \<not> float_le_zero (timeout_arg a)
        \<and> 0 < workers a \<and> workers a \<le> 200 \<and> retries a < 0
        \<and> load_domains_from_file ?self env
             (input_file a) (logger INFO (LoadingDomainsFrom (input_file a)) w)
            = (Inr domains, w1)
        \<and> domains \<noteq> []"
    then have valid: "files w (input_file a) \<noteq> None" "\<not> float_le_zero (timeout_arg a)"
        "\<not> (workers a \<le> 0 \<or> workers a > 200)"
      and load: "load_domains_from_file ?self env
             (input_file a) (logger INFO (LoadingDomainsFrom (input_file a)) w)
            = (Inr domains, w1)"
      and ne: "domains \<noteq> []"
      by auto
    have mw: "0 < max_workers ?self" and rc: "retry_count ?self < 0"
      using h by (simp_all add: DomainChecker_def)
    note check = check_domains_concurrent_negative_retries [OF mw rc]
    have "filter_existing_domains ?self env (input_file a) (output_file a) w =
      (Returned, print (NoExistingDomainsFound (length domains))
              ((print (LoadedDomains (length domains)) w1)
                 \<lparr>progress := progress w1 + length domains\<rparr>))"
      using ne by (simp add: filter_existing_domains_def load check print_def)
    then show "main env a w =
        (0, print (NoExistingDomainsFound (length domains))
              ((print (LoadedDomains (length domains)) w1)
                 \<lparr>progress := progress w1 + length domains\<rparr>))"
      using valid by (auto simp add: main_def)
  qed
  have nan: "\<not> float_le_zero NaN" "timeout_error env NaN \<noteq> None"
    by (simp_all add: float_le_zero_def timeout_error_def)
  have refused: "files w (input_file a) \<noteq> None \<and> \<not> float_le_zero (timeout_arg a)
        \<and> timeout_error env (timeout_arg a) \<noteq> None
        \<and> 0 < workers a \<and> workers a \<le> 200
        \<and> load_domains_from_file ?self env
             (input_file a) (logger INFO (LoadingDomainsFrom (input_file a)) w)
            = (Inr domains, w1)
        \<and> domains \<noteq> [] \<longrightarrow>
      fst (main env a w) = 0
      \<and> progress (snd (main env a w)) = progress w1 + length domains
      \<and> lookups (snd (main env a w)) = lookups w1
      \<and> fs_calls (snd (main env a w)) = fs_calls w1"
  proof
    assume h: "files w (input_file a) \<noteq> None \<and> \<not> float_le_zero (timeout_arg a)
        \<and> timeout_error env (timeout_arg a) \<noteq> None
        \<and> 0 < workers a \<and> workers a \<le> 200
        \<and> load_domains_from_file ?self env
             (input_file a) (logger INFO (LoadingDomainsFrom (input_file a)) w)
            = (Inr domains, w1)
        \<and> domains \<noteq> []"
    then have valid: "files w (input_file a) \<noteq> None" "\<not> float_le_zero (timeout_arg a)"
        "\<not> (workers a \<le> 0 \<or> workers a > 200)"
      and load: "load_domains_from_file ?self env
             (input_file a) (logger INFO (LoadingDomainsFrom (input_file a)) w)
            = (Inr domains, w1)"
      and ne: "domains \<noteq> []"
      by auto
    have mw: "0 < max_workers ?self"
      and no: "retry_count ?self < 0 \<or> timeout_error env (timeout ?self) \<noteq> None"
      using h by (simp_all add: DomainChecker_def)
    from filter_existing_domains_no_lookup [OF load ne mw no, of "output_file a"]
    obtain w' where run: "filter_existing_domains ?self env (input_file a) (output_file a) w
        = (Returned, w')"
      and fr: "progress w' = progress w1 + length domains" "lookups w' = lookups w1"
        "fs_calls w' = fs_calls w1"
      by blast
    from run valid have "main env a w = (0, w')" by (auto simp add: main_def)
    with fr show "fst (main env a w) = 0
      \<and> progress (snd (main env a w)) = progress w1 + length domains
      \<and> lookups (snd (main env a w)) = lookups w1
      \<and> fs_calls (snd (main env a w)) = fs_calls w1"
      by simp
  qed
  from rejected negative nan refused show ?thesis by (intro conjI)
qed

lemma load_scenario:
  assumes "files w p = Some scenario_lines" and "read_fault env p = None"
  shows "load_domains_from_file self env p w =
    (Inr [''google.com'', ''WWW.Google.com'', ''nonexistent-domain-abc123xyz.invalid''], w)"
  using assms
  by (simp add: load_domains_from_file_def load_scenario_lines dict_fromkeys_scenario)

lemma negative_retries_args_fields:
  "input_file negative_retries_args = ''domains.txt''"
  "output_file negative_retries_args = ''valid.txt''"
  "timeout_arg negative_retries_args = Finite 5" "workers negative_retries_args = 50"
  "retries negative_retries_args = - 1"
  by (simp_all add: negative_retries_args_def)

lemma scenario_world_file: "files scenario_world ''domains.txt'' = Some scenario_lines"
  by (simp add: scenario_world_def)

lemma filter_existing_domains_negative_retries:
  assumes "load_domains_from_file self env inp (logger INFO (LoadingDomainsFrom inp) w)
      = (Inr domains, w1)"
    and "domains \<noteq> []" and "0 < max_workers self" and "retry_count self < 0"
  shows "filter_existing_domains self env inp out w =
    (Returned, print (NoExistingDomainsFound (length domains))
       ((print (LoadedDomains (length domains)) w1)
          \<lparr>progress := progress w1 + length domains\<rparr>))"
  using assms(2)
  by (simp add: filter_existing_domains_def assms(1)
      check_domains_concurrent_negative_retries [OF assms(3,4)] print_def)

theorem main_validates_timeout_and_workers_witness:
  "(\<exists>m. main (env_of resolves) (negative_retries_args\<lparr>workers := 0\<rparr>) scenario_world
        = (1, print m scenario_world))
   \<and> (\<exists>m. main (env_of resolves) (negative_retries_args\<lparr>workers := 201\<rparr>) scenario_world
        = (1, print m scenario_world))
   \<and> (\<exists>m. main (env_of resolves) (negative_retries_args\<lparr>timeout_arg := Finite 0\<rparr>)
          scenario_world
        = (1, print m scenario_world))
   \<and> fst (main (env_of resolves) negative_retries_args scenario_world) = 0
   \<and> progress (snd (main (env_of resolves) negative_retries_args scenario_world)) = 3
   \<and> lookups (snd (main (env_of resolves) negative_retries_args scenario_world)) = []
   \<and> fst (main (env_of resolves) (negative_retries_args\<lparr>timeout_arg := NaN, retries := 2\<rparr>)
        scenario_world) = 0
   \<and> progress (snd (main (env_of resolves)
        (negative_retries_args\<lparr>timeout_arg := NaN, retries := 2\<rparr>) scenario_world)) = 3
   \<and> lookups (snd (main (env_of resolves)
        (negative_retries_args\<lparr>timeout_arg := NaN, retries := 2\<rparr>) scenario_world)) = []"
proof -
  let ?names = "[''google.com'', ''WWW.Google.com'', ''nonexistent-domain-abc123xyz.invalid'']"
  let ?w1 = "logger INFO (LoadingDomainsFrom ''domains.txt'') scenario_world"
  let ?nan = "negative_retries_args\<lparr>timeout_arg := NaN, retries := 2\<rparr>"
  have a: "\<exists>m. main (env_of resolves) (negative_retries_args\<lparr>workers := 0\<rparr>) scenario_world
        = (1, print m scenario_world)"
    using main_validates_timeout_and_workers
      [where a = "negative_retries_args\<lparr>workers := 0\<rparr>" and env = "env_of resolves"
          and w = scenario_world, THEN conjunct1]
    by auto
  have b: "\<exists>m. main (env_of resolves) (negative_retries_args\<lparr>workers := 201\<rparr>) scenario_world
        = (1, print m scenario_world)"
    using main_validates_timeout_and_workers
      [where a = "negative_retries_args\<lparr>workers := 201\<rparr>" and env = "env_of resolves"
          and w = scenario_world, THEN conjunct1]
    by auto
  have c: "\<exists>m. main (env_of resolves) (negative_retries_args\<lparr>timeout_arg := Finite 0\<rparr>)
        scenario_world = (1, print m scenario_world)"
    using main_validates_timeout_and_workers
      [where a = "negative_retries_args\<lparr>timeout_arg := Finite 0\<rparr>"
          and env = "env_of resolves" and w = scenario_world, THEN conjunct1]
    by (auto simp add: float_le_zero_def)
  have load: "load_domains_from_file self (env_of resolves) ''domains.txt'' ?w1
      = (Inr ?names, ?w1)" for self
    by (rule load_scenario) (simp_all add: logger_def scenario_world_file env_of_def)
  have "main (env_of resolves) negative_retries_args scenario_world =
        (0, print (NoExistingDomainsFound (length ?names))
              ((print (LoadedDomains (length ?names)) ?w1)
                 \<lparr>progress := progress ?w1 + length ?names\<rparr>))"
    using main_validates_timeout_and_workers
      [where a = negative_retries_args and w = scenario_world and domains = ?names
          and env = "env_of resolves" and ?w1.0 = ?w1, THEN conjunct2, THEN conjunct1]
      load
    by (simp add: negative_retries_args_fields scenario_world_file float_le_zero_def)
  then have d: "fst (main (env_of resolves) negative_retries_args scenario_world) = 0
   \<and> progress (snd (main (env_of resolves) negative_retries_args scenario_world)) = 3
   \<and> lookups (snd (main (env_of resolves) negative_retries_args scenario_world)) = []"
    by (simp add: print_def logger_def scenario_world_def world0_def)
  have "fst (main (env_of resolves) ?nan scenario_world) = 0
      \<and> progress (snd (main (env_of resolves) ?nan scenario_world))
          = progress ?w1 + length ?names
      \<and> lookups (snd (main (env_of resolves) ?nan scenario_world)) = lookups ?w1
      \<and> fs_calls (snd (main (env_of resolves) ?nan scenario_world)) = fs_calls ?w1"
    using main_validates_timeout_and_workers
      [where a = ?nan and w = scenario_world and domains = ?names
          and env = "env_of resolves" and ?w1.0 = ?w1,
        THEN conjunct2, THEN conjunct2, THEN conjunct2, THEN conjunct2]
      load
    by (simp add: negative_retries_args_fields scenario_world_file float_le_zero_def
        timeout_error_env_of)
  then have n: "fst (main (env_of resolves) ?nan scenario_world) = 0
      \<and> progress (snd (main (env_of resolves) ?nan scenario_world)) = 3
      \<and> lookups (snd (main (env_of resolves) ?nan scenario_world)) = []"
    by (simp add: logger_def scenario_world_def world0_def)
  from a b c d n show ?thesis by (intro conjI) simp_all
qed

text \<open>
  C8 as stated fails for a negative retry count: \<^verbatim>\<open>-r -1\<close> passes the validation, the
  engine takes a verdict for each of the three names, and the process exits with status 0.
\<close>

theorem main_validation_counterexample:
  "retries negative_retries_args < 0
   \<and> fst (main (env_of resolves) negative_retries_args scenario_world) = 0
   \<and> progress (snd (main (env_of resolves) negative_retries_args scenario_world)) = 3"
proof -
  let ?names = "[''google.com'', ''WWW.Google.com'', ''nonexistent-domain-abc123xyz.invalid'']"
  let ?self = "DomainChecker (Finite 5) 50 (- 1)"
  let ?w1 = "logger INFO (LoadingDomainsFrom ''domains.txt'') scenario_world"
  let ?w2 = "print (LoadedDomains (length ?names)) ?w1"
  have load: "load_domains_from_file ?self (env_of resolves) ''domains.txt'' ?w1
      = (Inr ?names, ?w1)"
    by (rule load_scenario) (simp_all add: logger_def scenario_world_file env_of_def)
  have "filter_existing_domains ?self (env_of resolves) ''domains.txt'' ''valid.txt''
      scenario_world
    = (Returned, print (NoExistingDomainsFound (length ?names))
         (?w2\<lparr>progress := progress ?w1 + length ?names\<rparr>))"
    by (rule filter_existing_domains_negative_retries [OF load])
      (simp_all add: DomainChecker_def)
  then have "main (env_of resolves) negative_retries_args scenario_world
    = (0, print (NoExistingDomainsFound (length ?names))
         (?w2\<lparr>progress := progress ?w1 + length ?names\<rparr>))"
    by (simp add: main_def negative_retries_args_fields scenario_world_file float_le_zero_def)
  then show ?thesis
    by (simp add: negative_retries_args_fields print_def logger_def scenario_world_def
        world0_def)
qed

section \<open>Saving the result\<close>

lemma load_lines_frame:
  "fs_calls (snd (load_lines n ls ds w)) = fs_calls w
   \<and> files (snd (load_lines n ls ds w)) = files w"
  by (induction n ls ds w rule: load_lines.induct) (simp_all add: Let_def logger_def)

lemma load_domains_from_file_frame:
  assumes "load_domains_from_file self env p w = (r, w')"
  shows "fs_calls w' = fs_calls w \<and> files w' = files w"
proof (cases "files w p")
  case None
  with assms show ?thesis by (simp add: load_domains_from_file_def)
next
  case (Some content)
  show ?thesis
  proof (cases "read_fault env p")
    case fault: (Some ne)
    obtain n e where ne: "ne = (n, e)" by (cases ne)
    from assms Some fault ne have "w' = snd (load_lines 1 (take n content) [] w)"
      by (auto simp add: load_domains_from_file_def)
    then show ?thesis by (simp only: load_lines_frame)
  next
    case None
    obtain ds w1 where l: "load_lines 1 content [] w = (ds, w1)"
      by (cases "load_lines 1 content [] w")
    from load_lines_frame [of 1 content "[]" w] l
    have fr: "fs_calls w1 = fs_calls w \<and> files w1 = files w" by simp
    from assms Some None l have "w' = w1 \<or> (\<exists>m. w' = logger INFO m w1)"
      by (auto simp add: load_domains_from_file_def Let_def split: if_splits)
    with fr show ?thesis by (auto simp add: logger_def)
  qed
qed

lemma check_domains_concurrent_frame:
  assumes "check_domains_concurrent self env domains w = (Inr existing, w')"
  shows "fs_calls w' = fs_calls w \<and> files w' = files w"
proof -
  let ?futures = "as_completed (completes env) 0 domains"
  from assms have "collect_results self env ?futures [] w = (Inr existing, w')"
    by (simp add: check_domains_concurrent_def split: if_splits)
  with collect_results_verdicts [of self env ?futures "[]" w]
  show ?thesis by auto
qed

lemma save_domains_to_file_calls:
  "\<exists>more. fs_calls (snd (save_domains_to_file self env domains out w))
     = fs_calls w @ Mkdir (parent env out) # more"
  by (auto simp add: save_domains_to_file_def write_lines_def logger_def Let_def
      split: option.splits)

lemma save_domains_to_file_written:
  assumes "mkdir_fault env (parent env out) = None" and "open_fault env out = None"
    and "write_fault env out = None"
  shows "fst (save_domains_to_file self env domains out w) = Inr ()"
    and "files (snd (save_domains_to_file self env domains out w)) out
      = Some (map (\<lambda>domain. domain @ [CHR 0x0A]) (sort domains))"
  using assms
  by (simp_all add: save_domains_to_file_def write_lines_def logger_def Let_def)

lemma processing_failed_frame:
  "fs_calls (snd (processing_failed e w)) = fs_calls w
   \<and> files (snd (processing_failed e w)) = files w
   \<and> fst (processing_failed e w) = SystemExit 1"
  by (simp add: processing_failed_def print_def logger_def)

text \<open>
  C10. In a run of \<^verbatim>\<open>filter_existing_domains\<close> that loads a non-empty list of domains
  and gets a list \<open>existing\<close> back from the concurrent check: if \<open>existing\<close> is empty,
  \<^verbatim>\<open>save_domains_to_file\<close> is not called, so the run makes no call that changes the file
  system (no \<^verbatim>\<open>mkdir\<close>, no file opened or written), leaves every file as it was and
  returns after printing the warning; if \<open>existing\<close> is not empty, the save is always
  started (the \<^verbatim>\<open>mkdir\<close> of the output file's parent is the run's first file-system
  call), and unless the file system raises, the output file holds the sorted names, one
  per line.
\<close>

theorem filter_existing_domains_saves_when_nonempty:
  assumes "load_domains_from_file self env inp (logger INFO (LoadingDomainsFrom inp) w)
      = (Inr domains, w1)"
    and "domains \<noteq> []"
    and "check_domains_concurrent self env domains (print (LoadedDomains (length domains)) w1)
      = (Inr existing, w2)"
  shows "(existing = [] \<longrightarrow>
            filter_existing_domains self env inp out w
              = (Returned, print (NoExistingDomainsFound (length domains)) w2)
          \<and> fs_calls (snd (filter_existing_domains self env inp out w)) = fs_calls w
          \<and> files (snd (filter_existing_domains self env inp out w)) = files w)
       \<and> (existing \<noteq> [] \<longrightarrow>
            (\<exists>more. fs_calls (snd (filter_existing_domains self env inp out w))
               = fs_calls w @ Mkdir (parent env out) # more)
          \<and> (mkdir_fault env (parent env out) = None \<and> open_fault env out = None
               \<and> write_fault env out = None \<longrightarrow>
               fst (filter_existing_domains self env inp out w) = Returned
             \<and> files (snd (filter_existing_domains self env inp out w)) out
                 = Some (map (\<lambda>domain. domain @ [CHR 0x0A]) (sort existing))))"
proof -
  have fr1: "fs_calls w1 = fs_calls w \<and> files w1 = files w"
    using load_domains_from_file_frame [OF assms(1)] by (simp add: logger_def)
  have fr2: "fs_calls w2 = fs_calls w \<and> files w2 = files w"
    using check_domains_concurrent_frame [OF assms(3)] fr1 by (simp add: print_def)
  have empty: "existing = [] \<longrightarrow>
            filter_existing_domains self env inp out w
              = (Returned, print (NoExistingDomainsFound (length domains)) w2)
          \<and> fs_calls (snd (filter_existing_domains self env inp out w)) = fs_calls w
          \<and> files (snd (filter_existing_domains self env inp out w)) = files w"
  proof
    assume e: "existing = []"
    have run: "filter_existing_domains self env inp out w
        = (Returned, print (NoExistingDomainsFound (length domains)) w2)"
      using assms(2) by (simp add: filter_existing_domains_def assms(1) assms(3) e)
    then show "filter_existing_domains self env inp out w
              = (Returned, print (NoExistingDomainsFound (length domains)) w2)
          \<and> fs_calls (snd (filter_existing_domains self env inp out w)) = fs_calls w
          \<and> files (snd (filter_existing_domains self env inp out w)) = files w"
      using fr2 by (simp add: print_def)
  qed
  have nonempty: "existing \<noteq> [] \<longrightarrow>
            (\<exists>more. fs_calls (snd (filter_existing_domains self env inp out w))
               = fs_calls w @ Mkdir (parent env out) # more)
          \<and> (mkdir_fault env (parent env out) = None \<and> open_fault env out = None
               \<and> write_fault env out = None \<longrightarrow>
               fst (filter_existing_domains self env inp out w) = Returned
             \<and> files (snd (filter_existing_domains self env inp out w)) out
                 = Some (map (\<lambda>domain. domain @ [CHR 0x0A]) (sort existing)))"
  proof
    assume ne: "existing \<noteq> []"
    obtain r w3 where s: "save_domains_to_file self env existing out w2 = (r, w3)"
      by (cases "save_domains_to_file self env existing out w2")
    have run: "filter_existing_domains self env inp out w =
        (case r of
           Inl e \<Rightarrow> processing_failed e w3
         | Inr u \<Rightarrow>
             (Returned, print (ResultsSummary (length domains) (length existing)
                (int (length domains) - int (length existing)) out) w3))"
      using assms(2) ne
      by (simp add: filter_existing_domains_def assms(1) assms(3) s split: sum.splits)
    have same: "fs_calls (snd (filter_existing_domains self env inp out w)) = fs_calls w3
        \<and> files (snd (filter_existing_domains self env inp out w)) = files w3"
      by (cases r) (simp_all add: run processing_failed_frame print_def)
    from save_domains_to_file_calls [of self env existing out w2] s fr2
    have calls: "\<exists>more. fs_calls w3 = fs_calls w @ Mkdir (parent env out) # more"
      by simp
    have ok: "mkdir_fault env (parent env out) = None \<and> open_fault env out = None
               \<and> write_fault env out = None \<longrightarrow>
               fst (filter_existing_domains self env inp out w) = Returned
             \<and> files (snd (filter_existing_domains self env inp out w)) out
                 = Some (map (\<lambda>domain. domain @ [CHR 0x0A]) (sort existing))"
    proof
      assume "mkdir_fault env (parent env out) = None \<and> open_fault env out = None
               \<and> write_fault env out = None"
      then have f: "mkdir_fault env (parent env out) = None" "open_fault env out = None"
          "write_fault env out = None"
        by simp_all
      from save_domains_to_file_written [OF f, of self existing w2] s
      have "r = Inr ()" and "files w3 out
          = Some (map (\<lambda>domain. domain @ [CHR 0x0A]) (sort existing))"
        by simp_all
      then show "fst (filter_existing_domains self env inp out w) = Returned
             \<and> files (snd (filter_existing_domains self env inp out w)) out
                 = Some (map (\<lambda>domain. domain @ [CHR 0x0A]) (sort existing))"
        using same by (simp add: run)
    qed
    from calls same ok
    show "(\<exists>more. fs_calls (snd (filter_existing_domains self env inp out w))
               = fs_calls w @ Mkdir (parent env out) # more)
          \<and> (mkdir_fault env (parent env out) = None \<and> open_fault env out = None
               \<and> write_fault env out = None \<longrightarrow>
               fst (filter_existing_domains self env inp out w) = Returned
             \<and> files (snd (filter_existing_domains self env inp out w)) out
                 = Some (map (\<lambda>domain. domain @ [CHR 0x0A]) (sort existing)))"
      by simp
  qed
  from empty nonempty show ?thesis by (rule conjI)
qed

theorem filter_existing_domains_saves_when_nonempty_witness:
  "fst (filter_existing_domains default_checker (env_of not_found) ''domains.txt'' ''valid.txt''
          scenario_world) = Returned
   \<and> fs_calls (snd (filter_existing_domains default_checker (env_of not_found) ''domains.txt''
          ''valid.txt'' scenario_world)) = []
   \<and> files (snd (filter_existing_domains default_checker (env_of not_found) ''domains.txt''
          ''valid.txt'' scenario_world)) ''valid.txt'' = None
   \<and> fst (filter_existing_domains default_checker (env_of resolves) ''domains.txt'' ''valid.txt''
          scenario_world) = Returned
   \<and> files (snd (filter_existing_domains default_checker (env_of resolves) ''domains.txt''
          ''valid.txt'' scenario_world)) ''valid.txt''
       = Some (map (\<lambda>domain. domain @ [CHR 0x0A])
           (sort [''google.com'', ''google.com'', ''nonexistent-domain-abc123xyz.invalid'']))"
proof -
  let ?names = "[''google.com'', ''WWW.Google.com'', ''nonexistent-domain-abc123xyz.invalid'']"
  let ?w1 = "logger INFO (LoadingDomainsFrom ''domains.txt'') scenario_world"
  let ?w2 = "print (LoadedDomains (length ?names)) ?w1"
  have load: "load_domains_from_file default_checker env ''domains.txt'' ?w1 = (Inr ?names, ?w1)"
    if "read_fault env ''domains.txt'' = None" for env
    using that by (intro load_scenario) (simp_all add: logger_def scenario_world_file)
  have ne: "?names \<noteq> []" by simp
  have "fst (check_domains_concurrent default_checker (env_of not_found) ?names ?w2) = Inr []"
    by code_simp
  then have none: "check_domains_concurrent default_checker (env_of not_found) ?names ?w2
      = (Inr [], snd (check_domains_concurrent default_checker (env_of not_found) ?names ?w2))"
    by (simp add: prod_eq_iff)
  have "fst (check_domains_concurrent default_checker (env_of resolves) ?names ?w2)
      = Inr [''google.com'', ''google.com'', ''nonexistent-domain-abc123xyz.invalid'']"
    by code_simp
  then have some: "check_domains_concurrent default_checker (env_of resolves) ?names ?w2
      = (Inr [''google.com'', ''google.com'', ''nonexistent-domain-abc123xyz.invalid''],
         snd (check_domains_concurrent default_checker (env_of resolves) ?names ?w2))"
    by (simp add: prod_eq_iff)
  have rf: "read_fault (env_of r) ''domains.txt'' = None" for r by (simp add: env_of_def)
  note a = filter_existing_domains_saves_when_nonempty
    [OF load [OF rf] ne none, of "''valid.txt''", THEN conjunct1, THEN mp, OF refl]
  have ne': "[''google.com'', ''google.com'', ''nonexistent-domain-abc123xyz.invalid''] \<noteq> []"
    by simp
  have nofault: "mkdir_fault (env_of resolves) (parent (env_of resolves) ''valid.txt'') = None
      \<and> open_fault (env_of resolves) ''valid.txt'' = None
      \<and> write_fault (env_of resolves) ''valid.txt'' = None"
    by (simp add: env_of_def)
  note b = filter_existing_domains_saves_when_nonempty
    [OF load [OF rf] ne some, of "''valid.txt''", THEN conjunct2, THEN mp, OF ne',
      THEN conjunct2, THEN mp, OF nofault]
  have w: "fs_calls scenario_world = []" "files scenario_world ''valid.txt'' = None"
    by (simp_all add: scenario_world_def world0_def)
  from a [THEN conjunct1]
  have "fst (filter_existing_domains default_checker (env_of not_found) ''domains.txt''
          ''valid.txt'' scenario_world) = Returned"
    by (simp only: fst_conv)
  moreover from a [THEN conjunct2, THEN conjunct1]
  have "fs_calls (snd (filter_existing_domains default_checker (env_of not_found) ''domains.txt''
          ''valid.txt'' scenario_world)) = []"
    by (simp only: w)
  moreover from a [THEN conjunct2, THEN conjunct2]
  have "files (snd (filter_existing_domains default_checker (env_of not_found) ''domains.txt''
          ''valid.txt'' scenario_world)) ''valid.txt'' = None"
    by (simp only: w)
  moreover note b [THEN conjunct1] b [THEN conjunct2]
  ultimately show ?thesis by (intro conjI)
qed

end
